theory Spec2Isabelle
  imports Main "HOL-Library.Word"
begin

section \<open>The MP3Mat sketch: data model\<close>

text \<open>
  A shallow embedding of \<^verbatim>\<open>MP3Mat/MP3Mat.ino\<close>. The sketch runs on an 8-bit AVR:
  \<^verbatim>\<open>byte\<close> is an unsigned 8-bit value, \<^verbatim>\<open>int\<close> has 16 bits, \<^verbatim>\<open>long\<close> and the
  value of \<^verbatim>\<open>millis()\<close> have 32 bits. Bytes and the two time stamps are words, so that
  \<open>+\<close> and \<open>-\<close> wrap as they do on the chip; the values of \<^verbatim>\<open>analogRead\<close> and the
  results of the integer promotions are \<open>int\<close> (they stay far inside 16 bits).
\<close>

type_synonym byte = "8 word"
type_synonym ulong = "32 word"

definition DEBUG :: bool where
  "DEBUG = False"

definition BUTTONDELAY :: ulong where
  "BUTTONDELAY = 1000"

definition MAX_NUM_FILES :: int where
  "MAX_NUM_FILES = 20"

definition SLEEP_DELAY :: ulong where
  "SLEEP_DELAY = 20000"

datatype level = LOW | HIGH

text \<open>
  The values a \<^verbatim>\<open>char *\<close> takes in the sketch. A row of one of the two global arrays
  decays to the address of that row; a string literal has an address of its own. The
  sketch compares such addresses (never the characters behind them) in three places.
\<close>

datatype ptr = Null | Literal string | DirnameRow int | FilenameRow int

text \<open>
  What the sketch asks of its collaborators, in the order it asks: the calls to the MP3
  library and the steps of \<^verbatim>\<open>sleepNow\<close>. \<open>PlayMP3 i r\<close> is a call of
  \<^verbatim>\<open>playMP3(filename[i])\<close> that returned \<open>r\<close>.
\<close>

datatype event =
    StopTrack
  | PlayMP3 int byte
  | SetVolume byte byte
  | AttachInterrupt
  | SleepMode
  | DetachInterrupt

text \<open>The MP3 library as the sketch sees it: \<^verbatim>\<open>isPlaying()\<close> and \<^verbatim>\<open>currentPosition()\<close>.\<close>

record player =
  playing :: bool
  position :: nat

text \<open>
  The collaborators that are not part of the sketch: the result code of
  \<^verbatim>\<open>playMP3\<close> for a file name on the present state of the player (0 is success), and
  the SD card: \<open>files d\<close> is \<open>None\<close> when \<^verbatim>\<open>sd.chdir(d)\<close> fails and otherwise
  the names that \<^verbatim>\<open>openNext\<close>/\<^verbatim>\<open>getFilename\<close> deliver, in order.
\<close>

record env =
  play :: "player \<Rightarrow> string \<Rightarrow> byte"
  files :: "string \<Rightarrow> string list option"

text \<open>The global variables, the player, and the trace of calls made so far.\<close>

record state =
  result :: byte
  dirname :: "string list"
  filename :: "string list"
  last_dir :: byte
  last_file :: byte
  volume :: byte
  target_vol :: byte
  target_vol_range :: byte
  nextTrackSwitchOn :: bool
  previousTrackSwitchOn :: bool
  buttonLastChecked :: ulong
  sleepCounter :: ulong
  MP3player :: player
  trace :: "event list"

text \<open>
  An index outside an array is undefined behaviour in C++. The model stops there with
  the index that was used.
\<close>

datatype fault = FilenameOutOfBounds int | DirnameOutOfBounds int

text \<open>The globals as their initialisers leave them, before \<^verbatim>\<open>setup()\<close>.\<close>

definition initial :: state where
  "initial = \<lparr> result = 0, dirname = replicate 5 [], filename = replicate 20 [],
     last_dir = 0, last_file = 0, volume = 50, target_vol = 50, target_vol_range = 255,
     nextTrackSwitchOn = False, previousTrackSwitchOn = False,
     buttonLastChecked = 0, sleepCounter = 0,
     MP3player = \<lparr> playing = False, position = 0 \<rparr>, trace = [] \<rparr>"

section \<open>Reading a voltage divider\<close>

text \<open>
  \<^verbatim>\<open>buttonPushed\<close>, applied to the value \<^verbatim>\<open>analogRead\<close> returned. The thresholds are the
  literals of the source, in the order of its \<^verbatim>\<open>else if\<close> chain.
\<close>

definition buttonPushed :: "int \<Rightarrow> int" where
  "buttonPushed val =
     (if val \<ge> 751 \<and> val \<le> 980 then 1
      else if val \<ge> 580 \<and> val \<le> 750 then 2
      else if val \<ge> 380 \<and> val \<le> 560 then 3
      else if val \<ge> 241 \<and> val \<le> 360 then 4
      else if val \<ge> 0 \<and> val \<le> 240 then 5
      else 0)"

text \<open>The band of raw values that the source's condition for position \<open>k\<close> names.\<close>

definition band :: "int \<Rightarrow> int set" where
  "band k =
     (if k = 1 then {751..980}
      else if k = 2 then {580..750}
      else if k = 3 then {380..560}
      else if k = 4 then {241..360}
      else if k = 5 then {0..240}
      else {})"

section \<open>The MP3 helper functions\<close>

text \<open>\<^verbatim>\<open>MP3player.stopTrack()\<close>: afterwards nothing is playing.\<close>

definition stopTrack :: "state \<Rightarrow> state" where
  "stopTrack s =
     s\<lparr> MP3player := (MP3player s)\<lparr> playing := False \<rparr>, trace := trace s @ [StopTrack] \<rparr>"

definition stopPlayback :: "state \<Rightarrow> state" where
  "stopPlayback s = stopTrack s"

text \<open>
  \<^verbatim>\<open>playMp3File(fileNum)\<close> hands \<^verbatim>\<open>filename[fileNum - 1]\<close> to the library, which reads
  the characters there. The global \<open>result\<close> keeps the code; \<open>last_file\<close> is written
  only when the code is 0. A started track plays from position 0.
\<close>

definition playMp3File :: "env \<Rightarrow> byte \<Rightarrow> state \<Rightarrow> fault + state" where
  "playMp3File e fileNum s =
     (let i = uint fileNum - 1 in
      if 0 \<le> i \<and> i < MAX_NUM_FILES then
        (let r = play e (MP3player s) (filename s ! nat i) in
         Inr (s\<lparr> result := r,
                 last_file := (if r = 0 then fileNum else last_file s),
                 MP3player := (if r = 0 then \<lparr> playing = True, position = 0 \<rparr> else MP3player s),
                 trace := trace s @ [PlayMP3 i r] \<rparr>))
      else Inl (FilenameOutOfBounds i))"

text \<open>
  \<^verbatim>\<open>filename[last_file] != ""\<close> compares the address of a row with the address of a
  string literal.
\<close>

definition playNextTrack :: "env \<Rightarrow> state \<Rightarrow> fault + state" where
  "playNextTrack e s =
     (if uint (last_file s) + 1 \<le> MAX_NUM_FILES \<and> FilenameRow (uint (last_file s)) \<noteq> Literal ''''
      then (let s1 = stopTrack s;
                s2 = s1\<lparr> last_file := last_file s1 + 1 \<rparr>
            in playMp3File e (last_file s2) s2)
      else Inr s)"

definition playPreviousTrack :: "env \<Rightarrow> state \<Rightarrow> fault + state" where
  "playPreviousTrack e s =
     (if uint (last_file s) - 1 \<ge> 0 \<and> FilenameRow (uint (last_file s) - 2) \<noteq> Literal ''''
      then (let s1 = stopTrack s;
                s2 = s1\<lparr> last_file := last_file s1 - 1 \<rparr>
            in playMp3File e (last_file s2) s2)
      else Inr s)"

section \<open>Volume\<close>

text \<open>Arduino's \<^verbatim>\<open>map\<close> and \<^verbatim>\<open>constrain\<close>; \<^verbatim>\<open>/\<close> truncates towards zero.\<close>

definition map_range :: "int \<Rightarrow> int \<Rightarrow> int \<Rightarrow> int \<Rightarrow> int \<Rightarrow> int" where
  "map_range x in_min in_max out_min out_max =
     (let n = (x - in_min) * (out_max - out_min); d = in_max - in_min
      in sgn n * sgn d * (\<bar>n\<bar> div \<bar>d\<bar>) + out_min)"

definition constrain :: "int \<Rightarrow> int \<Rightarrow> int \<Rightarrow> int" where
  "constrain x a b = (if x < a then a else if x > b then b else x)"

text \<open>The result of \<^verbatim>\<open>map\<close> is a \<^verbatim>\<open>long\<close> and is cut to a byte by the first assignment.\<close>

definition setTargetVolumeByRange :: "byte \<Rightarrow> state \<Rightarrow> state" where
  "setTargetVolumeByRange val s =
     (let t1 = (word_of_int (map_range (uint val) 0 5 0 60) :: byte);
          t2 = (word_of_int (constrain (uint t1) 0 60) :: byte)
      in s\<lparr> target_vol := t2 \<rparr>)"

definition adjustVolume :: "state \<Rightarrow> state" where
  "adjustVolume s =
     (let v = (if volume s < target_vol s then volume s + 1
               else if volume s > target_vol s then volume s - 1
               else volume s)
      in s\<lparr> volume := v, trace := trace s @ [SetVolume v v] \<rparr>)"

section \<open>Reading the SD card\<close>

text \<open>
  \<open>first_char n\<close> is \<^verbatim>\<open>n[0]\<close> as a number: the terminating NUL when the name is empty.
\<close>

definition first_char :: "string \<Rightarrow> nat" where
  "first_char n = (case n of [] \<Rightarrow> 0 | c # _ \<Rightarrow> of_char c)"

text \<open>
  The loop of \<^verbatim>\<open>readRootDirnames\<close> over the entries of the root directory, each with
  its \<^verbatim>\<open>isDir()\<close>: an entry whose name starts with \<^verbatim>\<open>'1'\<close> to \<^verbatim>\<open>'5'\<close> (49 to 53) and
  is a directory is copied to \<^verbatim>\<open>dirname[name[0] - '1']\<close>.
\<close>

fun root_entries :: "(string \<times> bool) list \<Rightarrow> string list \<Rightarrow> string list" where
  "root_entries [] dn = dn"
| "root_entries ((n, isDir) # es) dn =
     root_entries es
       (if first_char n \<ge> 49 \<and> first_char n \<le> 53 \<and> isDir then dn[first_char n - 49 := n] else dn)"

definition readRootDirnames :: "(string \<times> bool) list \<Rightarrow> state \<Rightarrow> state" where
  "readRootDirnames root s = s\<lparr> dirname := root_entries root (dirname s) \<rparr>"

text \<open>
  The loop of \<^verbatim>\<open>readFilenames\<close>: a name that does not start with \<^verbatim>\<open>'_'\<close> (95) is
  copied to \<^verbatim>\<open>filename[index]\<close> and the byte \<open>index\<close> is incremented; the source
  compares \<open>index\<close> with nothing.
\<close>

fun store_files :: "string list \<Rightarrow> byte \<Rightarrow> string list \<Rightarrow> fault + string list" where
  "store_files [] index fn = Inr fn"
| "store_files (n # ns) index fn =
     (if first_char n \<noteq> 95 then
        (if uint index < MAX_NUM_FILES then store_files ns (index + 1) (fn[unat index := n])
         else Inl (FilenameOutOfBounds (uint index)))
      else store_files ns index fn)"

definition readFilenames :: "env \<Rightarrow> byte \<Rightarrow> state \<Rightarrow> fault + state" where
  "readFilenames e dirNum s =
     (let s1 = stopPlayback s;
          s2 = s1\<lparr> filename := replicate 20 [] \<rparr>;
          d = uint dirNum - 1
      in if 0 \<le> d \<and> d < 5 then
           (case (case files e (dirname s2 ! nat d) of
                    None \<Rightarrow> Inr (filename s2)
                  | Some ns \<Rightarrow> store_files ns 0 (filename s2)) of
              Inl f \<Rightarrow> Inl f
            | Inr fn \<Rightarrow> playMp3File e 1 (s2\<lparr> filename := fn, last_file := 0 \<rparr>))
         else Inl (DirnameOutOfBounds d))"

section \<open>Sleep\<close>

definition sleepNow :: "state \<Rightarrow> state" where
  "sleepNow s = s\<lparr> trace := trace s @ [AttachInterrupt, SleepMode, DetachInterrupt] \<rparr>"

section \<open>One pass of \<^verbatim>\<open>loop()\<close>\<close>

text \<open>
  What one pass reads from outside: the value of each call of \<^verbatim>\<open>millis()\<close> (line 242,
  line 247, line 333, line 379, and line 384 or 389), the two analog samples and the
  levels of the two switches.
\<close>

record input =
  millis_first :: ulong
  millis_check :: ulong
  millis_checked :: ulong
  millis_sleep :: ulong
  millis_reset :: ulong
  directory_sample :: int
  volume_sample :: int
  previousTrackSwitchState :: level
  nextTrackSwitchState :: level

definition and_then :: "fault + 'a \<Rightarrow> ('a \<Rightarrow> fault + 'b) \<Rightarrow> fault + 'b" where
  "and_then r f = (case r of Inl x \<Rightarrow> Inl x | Inr a \<Rightarrow> f a)"

text \<open>
  The DIRECTORY block (lines 252 to 309). The pair carries \<open>detectedInteraction\<close> and
  the globals. \<^verbatim>\<open>!dirname[buttNum - 1]\<close> tests the address of a row.
\<close>

definition loop_directory :: "env \<Rightarrow> int \<Rightarrow> bool \<times> state \<Rightarrow> fault + bool \<times> state" where
  "loop_directory e val ds =
     (case ds of (det, s) \<Rightarrow>
        (let buttNum = buttonPushed val in
         if buttNum \<noteq> 0 then
           (if buttNum \<noteq> uint (last_dir s) then
              (let s1 = s\<lparr> last_dir := word_of_int buttNum \<rparr> in
               if DirnameRow (buttNum - 1) = Null then Inr (True, s1)
               else and_then
                      (readFilenames e (word_of_int buttNum)
                         (if playing (MP3player s1) then stopPlayback s1 else s1))
                      (\<lambda>s2. Inr (True, s2)))
            else if \<not> playing (MP3player s)
              then and_then (playNextTrack e s) (\<lambda>s1. Inr (det, s1))
              else Inr (det, s))
         else
           (if playing (MP3player s)
            then Inr (True, (stopPlayback s)\<lparr> last_dir := 0, last_file := 0 \<rparr>)
            else Inr (det, s\<lparr> last_dir := 0, last_file := 0 \<rparr>))))"

text \<open>The VOLUME block (lines 314 to 331).\<close>

definition loop_volume :: "int \<Rightarrow> bool \<times> state \<Rightarrow> bool \<times> state" where
  "loop_volume val ds =
     (case ds of (det, s) \<Rightarrow>
        (let buttNum = buttonPushed val in
         if buttNum \<noteq> 0 \<and> buttNum \<noteq> uint (target_vol_range s)
         then (True, setTargetVolumeByRange (word_of_int buttNum)
                       (s\<lparr> target_vol_range := word_of_int buttNum \<rparr>))
         else (det, s)))"

text \<open>The PREVIOUS switch (lines 344 to 358).\<close>

definition loop_previous :: "env \<Rightarrow> level \<Rightarrow> state \<Rightarrow> fault + state" where
  "loop_previous e previousState s =
     (if \<not> DEBUG \<and> last_dir s > 0 \<and> previousState = LOW \<and> \<not> previousTrackSwitchOn s then
        and_then
          (if position (MP3player s) \<ge> 3000
           then (let s1 = stopPlayback s in playMp3File e (last_file s1) s1)
           else playPreviousTrack e s)
          (\<lambda>s1. Inr (s1\<lparr> previousTrackSwitchOn := True \<rparr>))
      else Inr (s\<lparr> previousTrackSwitchOn := False \<rparr>))"

text \<open>The NEXT switch (lines 361 to 368).\<close>

definition loop_next :: "env \<Rightarrow> level \<Rightarrow> state \<Rightarrow> fault + state" where
  "loop_next e nextState s =
     (if last_dir s > 0 \<and> nextState = LOW \<and> \<not> nextTrackSwitchOn s then
        and_then (playNextTrack e s) (\<lambda>s1. Inr (s1\<lparr> nextTrackSwitchOn := True \<rparr>))
      else Inr (s\<lparr> nextTrackSwitchOn := False \<rparr>))"

text \<open>The sleep block (lines 377 to 390), given \<open>detectedInteraction\<close>.\<close>

definition loop_sleep :: "input \<Rightarrow> bool \<Rightarrow> state \<Rightarrow> state" where
  "loop_sleep i det s =
     (if \<not> det \<and> \<not> playing (MP3player s) then
        (if millis_sleep i - sleepCounter s \<ge> SLEEP_DELAY
         then sleepNow (s\<lparr> sleepCounter := millis_reset i \<rparr>)
         else s)
      else s\<lparr> sleepCounter := millis_reset i \<rparr>)"

text \<open>
  Lines 239 to 372: everything before the sleep block. The result carries the
  \<open>detectedInteraction\<close> that the sleep block will see.
\<close>

definition loop_poll :: "env \<Rightarrow> input \<Rightarrow> state \<Rightarrow> fault + bool \<times> state" where
  "loop_poll e i s =
     (let s0 = (if buttonLastChecked s = 0
                then s\<lparr> buttonLastChecked := millis_first i + BUTTONDELAY \<rparr> else s)
      in and_then
           (if millis_check i - buttonLastChecked s0 > BUTTONDELAY then
              and_then (loop_directory e (directory_sample i) (False, s0))
                (\<lambda>ds. case loop_volume (volume_sample i) ds of
                         (det, s1) \<Rightarrow> Inr (det, s1\<lparr> buttonLastChecked := millis_checked i \<rparr>))
            else Inr (False, s0))
           (\<lambda>(det, s1).
              and_then (loop_previous e (previousTrackSwitchState i) s1)
                (\<lambda>s2. and_then (loop_next e (nextTrackSwitchState i) s2)
                   (\<lambda>s3. Inr (if nextTrackSwitchState i = LOW then True else det, s3)))))"

definition loop :: "env \<Rightarrow> input \<Rightarrow> state \<Rightarrow> fault + state" where
  "loop e i s =
     and_then (loop_poll e i s) (\<lambda>(det, s1). Inr (adjustVolume (loop_sleep i det s1)))"

text \<open>
  Between two passes the player goes on by itself: the track may come to its end, and
  a track that plays has played for some more milliseconds.
\<close>

record pass =
  track_over :: bool
  played :: nat
  reads :: input

definition outside :: "pass \<Rightarrow> state \<Rightarrow> state" where
  "outside p s =
     s\<lparr> MP3player :=
          \<lparr> playing = (playing (MP3player s) \<and> \<not> track_over p),
            position = (if playing (MP3player s) then position (MP3player s) + played p
                        else position (MP3player s)) \<rparr> \<rparr>"

fun run :: "env \<Rightarrow> pass list \<Rightarrow> state \<Rightarrow> fault + state" where
  "run e [] s = Inr s"
| "run e (p # ps) s = and_then (loop e (reads p) (outside p s)) (run e ps)"

section \<open>A card, and a few passes\<close>

text \<open>
  A card with one directory for position 1, holding three tracks and a cover file. The
  library answers 1 while a track plays, 0 for a track of the card and 2 for any other
  name.
\<close>

definition root :: "(string \<times> bool) list" where
  "root = [(''1ROCK'', True), (''README.TXT'', False)]"

definition card :: env where
  "card = \<lparr> play = (\<lambda>p n. if playing p then 1
                         else if n \<in> set [''A.MP3'', ''B.MP3'', ''C.MP3''] then 0 else 2),
            files = (\<lambda>d. if d = ''1ROCK''
                         then Some [''A.MP3'', ''_COVER.JPG'', ''B.MP3'', ''C.MP3''] else None) \<rparr>"

text \<open>The same card after it has been pulled out: nothing can be opened any more.\<close>

definition pulled :: env where
  "pulled = \<lparr> play = (\<lambda>p n. 2), files = (\<lambda>d. None) \<rparr>"

text \<open>A card whose directory holds 21 tracks, \<^verbatim>\<open>A.MP3\<close> to \<^verbatim>\<open>U.MP3\<close>.\<close>

definition long_card :: env where
  "long_card = \<lparr> play = (\<lambda>p n. if playing p then 1 else 0),
                 files = (\<lambda>d. if d = ''1ROCK''
                              then Some (map (\<lambda>c. c # ''.MP3'') ''ABCDEFGHIJKLMNOPQRSTU'')
                              else None) \<rparr>"

text \<open>The globals after \<^verbatim>\<open>setup()\<close> has read the root directory.\<close>

definition booted :: state where
  "booted = readRootDirnames root initial"

text \<open>
  A pass that reads nothing: both selectors open (1000 is in no band), both switches
  released, no track ending. \<open>at t\<close> sets every \<^verbatim>\<open>millis()\<close> of the pass to \<open>t\<close>.
\<close>

definition at :: "ulong \<Rightarrow> pass" where
  "at t = \<lparr> track_over = False, played = 0,
            reads = \<lparr> millis_first = t, millis_check = t, millis_checked = t,
                      millis_sleep = t, millis_reset = t,
                      directory_sample = 1000, volume_sample = 1000,
                      previousTrackSwitchState = HIGH, nextTrackSwitchState = HIGH \<rparr> \<rparr>"

definition directory :: "int \<Rightarrow> pass \<Rightarrow> pass" where
  "directory v p = p\<lparr> reads := (reads p)\<lparr> directory_sample := v \<rparr> \<rparr>"

definition press_next :: "pass \<Rightarrow> pass" where
  "press_next p = p\<lparr> reads := (reads p)\<lparr> nextTrackSwitchState := LOW \<rparr> \<rparr>"

definition press_previous :: "pass \<Rightarrow> pass" where
  "press_previous p = p\<lparr> reads := (reads p)\<lparr> previousTrackSwitchState := LOW \<rparr> \<rparr>"

definition track_ends :: "pass \<Rightarrow> pass" where
  "track_ends p = p\<lparr> track_over := True \<rparr>"

definition after_ms :: "nat \<Rightarrow> pass \<Rightarrow> pass" where
  "after_ms n p = p\<lparr> played := n \<rparr>"

text \<open>The number of rows of the list that hold a name.\<close>

definition populated :: "string list \<Rightarrow> nat" where
  "populated fn = length (filter (\<lambda>n. n \<noteq> []) fn)"

text \<open>What a run is observed by: the fault, or the listed parts of its result.\<close>

definition seen :: "('s \<Rightarrow> 'a) \<Rightarrow> fault + 's \<Rightarrow> fault + 'a" where
  "seen f r = (case r of Inl x \<Rightarrow> Inl x | Inr s \<Rightarrow> Inr (f s))"

text \<open>
  The state after the first pass on \<open>card\<close> with the directory selector on position 1
  (sample 800) at time 5: the three tracks are listed and track 1 plays.
\<close>

definition first_track :: state where
  "first_track = \<lparr> result = 0, dirname = [''1ROCK'', [], [], [], []],
     filename = [''A.MP3'', ''B.MP3'', ''C.MP3''] @ replicate 17 [],
     last_dir = 1, last_file = 1, volume = 50, target_vol = 50, target_vol_range = 255,
     nextTrackSwitchOn = False, previousTrackSwitchOn = False,
     buttonLastChecked = 5, sleepCounter = 5,
     MP3player = \<lparr> playing = True, position = 0 \<rparr>,
     trace = [StopTrack, PlayMP3 0 0, SetVolume 50 50] \<rparr>"

section \<open>Notions used by the statements\<close>

text \<open>The pass reads the two selectors: the test of line 247, after lines 241 and 242.\<close>

definition due :: "input \<Rightarrow> state \<Rightarrow> bool" where
  "due i s =
     (millis_check i
        - (if buttonLastChecked s = 0 then millis_first i + BUTTONDELAY else buttonLastChecked s)
      > BUTTONDELAY)"

text \<open>
  What sets \<open>detectedInteraction\<close> in a pass, read off the inputs and the state at its
  start: the next-track switch reading LOW, or, when the selectors are read, a new
  nonzero directory position, the directory selector reading 0 while a track plays,
  or a new nonzero volume position.
\<close>

definition interaction :: "input \<Rightarrow> state \<Rightarrow> bool" where
  "interaction i s =
     (nextTrackSwitchState i = LOW
      \<or> (due i s
          \<and> ((buttonPushed (directory_sample i) \<noteq> 0
                \<and> buttonPushed (directory_sample i) \<noteq> uint (last_dir s))
              \<or> (buttonPushed (directory_sample i) = 0 \<and> playing (MP3player s))
              \<or> (buttonPushed (volume_sample i) \<noteq> 0
                  \<and> buttonPushed (volume_sample i) \<noteq> uint (target_vol_range s)))))"

text \<open>The calls that stop or start a track.\<close>

fun track_event :: "event \<Rightarrow> bool" where
  "track_event StopTrack = True"
| "track_event (PlayMP3 i r) = True"
| "track_event ev = False"

text \<open>The calls that set the volume.\<close>

fun volume_event :: "event \<Rightarrow> bool" where
  "volume_event (SetVolume l r) = True"
| "volume_event ev = False"

text \<open>
  \<open>s'\<close> comes from \<open>s\<close> by track control alone: the idle timer and the volume variables
  are as before, and the calls added stop or start tracks.
\<close>

definition quiet :: "state \<Rightarrow> state \<Rightarrow> bool" where
  "quiet s s' \<longleftrightarrow>
     sleepCounter s' = sleepCounter s \<and> volume s' = volume s \<and> target_vol s' = target_vol s
     \<and> target_vol_range s' = target_vol_range s
     \<and> (\<exists>evs. trace s' = trace s @ evs \<and> list_all track_event evs)"

section \<open>The decoder\<close>

text \<open>The five bands, as the conditions of the source give them.\<close>

lemma band_ranges:
  "band 1 = {751..980}" "band 2 = {580..750}" "band 3 = {380..560}"
  "band 4 = {241..360}" "band 5 = {0..240}"
  by (simp_all add: band_def)

text \<open>
  Between the bands of positions 4 and 3 and of positions 3 and 2 the source leaves
  361..379 and 561..579 out, and above the band of position 1 it leaves 981..1023
  out. These samples, and no others of 0..1023, fall through to the last \<^verbatim>\<open>else\<close>.
\<close>

lemma buttonPushed_zero:
  assumes "0 \<le> s" and "s \<le> 1023"
  shows "buttonPushed s = 0 \<longleftrightarrow> s \<in> {361..379} \<union> {561..579} \<union> {981..1023}"
  using assms by (simp add: buttonPushed_def) arith

lemma some_band_cases:
  "(\<exists>k\<in>{1..5}. s \<in> band k)
     \<longleftrightarrow> s \<in> band 1 \<or> s \<in> band 2 \<or> s \<in> band 3 \<or> s \<in> band 4 \<or> s \<in> band 5"
proof
  assume "\<exists>k\<in>{1..5}. s \<in> band k"
  then obtain k :: int where k: "1 \<le> k" "k \<le> 5" and s: "s \<in> band k"
    by auto
  from k have "k = 1 \<or> k = 2 \<or> k = 3 \<or> k = 4 \<or> k = 5"
    by arith
  with s show "s \<in> band 1 \<or> s \<in> band 2 \<or> s \<in> band 3 \<or> s \<in> band 4 \<or> s \<in> band 5"
    by blast
next
  assume a: "s \<in> band 1 \<or> s \<in> band 2 \<or> s \<in> band 3 \<or> s \<in> band 4 \<or> s \<in> band 5"
  have "(1::int) \<in> {1..5}" "(2::int) \<in> {1..5}" "(3::int) \<in> {1..5}"
    "(4::int) \<in> {1..5}" "(5::int) \<in> {1..5}"
    by simp_all
  with a show "\<exists>k\<in>{1..5}. s \<in> band k"
    by blast
qed

lemma some_band:
  assumes "0 \<le> s" and "s \<le> 1023"
  shows "(\<exists>k\<in>{1..5}. s \<in> band k) \<longleftrightarrow> s \<notin> {361..379} \<union> {561..579} \<union> {981..1023}"
  unfolding some_band_cases band_ranges using assms by simp arith

text \<open>
  C9, as stated: the five bands are non-overlapping and exhaustive over 0..1023, and
  what lies outside them is the reserved top range. The samples 370 and 570 are in
  0..1023 and below the top range 981..1023, lie in none of the five bands, and
  decode to 0: the bands do not cover the domain.
\<close>

theorem dead_zone_samples:
  "(0::int) \<le> 370 \<and> (370::int) \<le> 1023 \<and> \<not> (981::int) \<le> 370
   \<and> 370 \<notin> band 1 \<and> 370 \<notin> band 2 \<and> 370 \<notin> band 3 \<and> 370 \<notin> band 4 \<and> 370 \<notin> band 5
   \<and> buttonPushed 370 = 0
   \<and> (0::int) \<le> 570 \<and> (570::int) \<le> 1023 \<and> \<not> (981::int) \<le> 570
   \<and> 570 \<notin> band 1 \<and> 570 \<notin> band 2 \<and> 570 \<notin> band 3 \<and> 570 \<notin> band 4 \<and> 570 \<notin> band 5
   \<and> buttonPushed 570 = 0"
  by (simp add: band_def buttonPushed_def)

text \<open>
  C9, amended. For every raw sample \<open>s\<close> in 0..1023 the decoder returns one value
  among 0 to 5. It returns position \<open>k\<close> in 1..5 exactly when \<open>s\<close> lies in the band of
  \<open>k\<close>. The bands are pairwise disjoint and a band of a higher position lies wholly
  below the band of a lower position (position 1 is the highest band). They are not
  exhaustive: a sample lies in some band exactly when it is outside the two dead
  zones 361..379 and 561..579 and outside the reserved top range 981..1023, and
  exactly the samples of these three ranges decode to 0.
\<close>

theorem buttonPushed_bands:
  assumes "0 \<le> s" and "s \<le> 1023"
  shows "buttonPushed s \<in> {0, 1, 2, 3, 4, 5}
       \<and> (\<forall>k\<in>{1..5}. buttonPushed s = k \<longleftrightarrow> s \<in> band k)
       \<and> (buttonPushed s = 0 \<longleftrightarrow> s \<in> {361..379} \<union> {561..579} \<union> {981..1023})
       \<and> ((\<exists>k\<in>{1..5}. s \<in> band k) \<longleftrightarrow> s \<notin> {361..379} \<union> {561..579} \<union> {981..1023})
       \<and> (\<forall>j\<in>{1..5}. \<forall>k\<in>{1..5}. j \<noteq> k \<longrightarrow> band j \<inter> band k = {})
       \<and> (\<forall>j\<in>{1..5}. \<forall>k\<in>{1..5}. j < k \<longrightarrow> (\<forall>a\<in>band j. \<forall>b\<in>band k. b < a))"
proof (intro conjI)
  show "buttonPushed s \<in> {0, 1, 2, 3, 4, 5}"
    by (simp add: buttonPushed_def)
  show "\<forall>k\<in>{1..5}. buttonPushed s = k \<longleftrightarrow> s \<in> band k"
    using assms by (auto simp: buttonPushed_def band_def split: if_splits)
  show "buttonPushed s = 0 \<longleftrightarrow> s \<in> {361..379} \<union> {561..579} \<union> {981..1023}"
    using assms by (rule buttonPushed_zero)
  show "(\<exists>k\<in>{1..5}. s \<in> band k) \<longleftrightarrow> s \<notin> {361..379} \<union> {561..579} \<union> {981..1023}"
    using assms by (rule some_band)
  show "\<forall>j\<in>{1..5}. \<forall>k\<in>{1..5}. j \<noteq> k \<longrightarrow> band j \<inter> band k = {}"
    by (auto simp: band_def split: if_splits)
  show "\<forall>j\<in>{1..5}. \<forall>k\<in>{1..5}. j < k \<longrightarrow> (\<forall>a\<in>band j. \<forall>b\<in>band k. b < a)"
    by (auto simp: band_def split: if_splits)
qed

text \<open>
  At the sample 800, which lies in band 1, at 370 in a dead zone and at 1000 in the
  reserved top range.
\<close>

theorem buttonPushed_bands_witness:
  "(0::int) \<le> 800 \<and> (800::int) \<le> 1023 \<and> (1::int) \<in> {1..5}
   \<and> buttonPushed 800 = 1 \<and> 800 \<in> band 1
   \<and> (0::int) \<le> 370 \<and> (370::int) \<le> 1023
   \<and> (370::int) \<in> {361..379} \<union> {561..579} \<union> {981..1023} \<and> buttonPushed 370 = 0
   \<and> (0::int) \<le> 1000 \<and> (1000::int) \<le> 1023
   \<and> (1000::int) \<in> {361..379} \<union> {561..579} \<union> {981..1023} \<and> buttonPushed 1000 = 0"
proof -
  have lo: "(0::int) \<le> 800" and hi: "(800::int) \<le> 1023" and k: "(1::int) \<in> {1..5}"
    by simp_all
  have pos: "buttonPushed 800 = 1"
    by (simp add: buttonPushed_def)
  note at800 = buttonPushed_bands [OF lo hi, THEN conjunct2, THEN conjunct1, THEN bspec, OF k]
  with pos have inb: "800 \<in> band 1"
    by (rule iffD1 [rotated])
  have lo2: "(0::int) \<le> 370" and hi2: "(370::int) \<le> 1023"
    and dead: "(370::int) \<in> {361..379} \<union> {561..579} \<union> {981..1023}"
    by simp_all
  note at370 = buttonPushed_bands [OF lo2 hi2, THEN conjunct2, THEN conjunct2, THEN conjunct1]
  from at370 dead have zero2: "buttonPushed 370 = 0"
    by (rule iffD2)
  have lo3: "(0::int) \<le> 1000" and hi3: "(1000::int) \<le> 1023"
    and top: "(1000::int) \<in> {361..379} \<union> {561..579} \<union> {981..1023}"
    by simp_all
  note at1000 = buttonPushed_bands [OF lo3 hi3, THEN conjunct2, THEN conjunct2, THEN conjunct1]
  from at1000 top have zero3: "buttonPushed 1000 = 0"
    by (rule iffD2)
  show ?thesis
    by (intro conjI lo hi k pos inb lo2 hi2 dead zero2 lo3 hi3 top zero3)
qed

section \<open>The volume fader\<close>

lemma setTargetVolumeByRange_le: "target_vol (setTargetVolumeByRange val s) \<le> 60"
  by (auto simp: setTargetVolumeByRange_def Let_def constrain_def word_le_def)

text \<open>
  C10. From a state with \<open>volume\<close> and \<open>target_vol\<close> in 0..60, one \<^verbatim>\<open>adjustVolume\<close>
  moves \<open>volume\<close> by exactly one unit towards \<open>target_vol\<close> when they differ and leaves
  it when they are equal; \<open>volume\<close> stays in 0..60 and does not pass \<open>target_vol\<close>; the
  target is not touched; and the call adds exactly one \<^verbatim>\<open>setVolume\<close> with the new
  volume to the calls made, also when the volume did not change. The target that
  \<^verbatim>\<open>setTargetVolumeByRange\<close> sets is in 0..60 for every argument.
\<close>

theorem adjustVolume_step:
  assumes "volume s \<le> 60" and "target_vol s \<le> 60"
  shows "(volume s < target_vol s \<longrightarrow>
            unat (volume (adjustVolume s)) = unat (volume s) + 1
            \<and> volume (adjustVolume s) \<le> target_vol s)
       \<and> (target_vol s < volume s \<longrightarrow>
            unat (volume (adjustVolume s)) + 1 = unat (volume s)
            \<and> target_vol s \<le> volume (adjustVolume s))
       \<and> (volume s = target_vol s \<longrightarrow> volume (adjustVolume s) = volume s)
       \<and> volume (adjustVolume s) \<le> 60
       \<and> target_vol (adjustVolume s) = target_vol s
       \<and> trace (adjustVolume s) =
           trace s @ [SetVolume (volume (adjustVolume s)) (volume (adjustVolume s))]
       \<and> target_vol (setTargetVolumeByRange val s) \<le> 60
       \<and> volume (setTargetVolumeByRange val s) = volume s"
proof -
  have fader: "target_vol (setTargetVolumeByRange val s) \<le> 60"
    by (rule setTargetVolumeByRange_le)
  have kept: "volume (setTargetVolumeByRange val s) = volume s"
    by (simp add: setTargetVolumeByRange_def Let_def)
  have step: "(volume s < target_vol s \<longrightarrow>
            unat (volume (adjustVolume s)) = unat (volume s) + 1
            \<and> volume (adjustVolume s) \<le> target_vol s)
       \<and> (target_vol s < volume s \<longrightarrow>
            unat (volume (adjustVolume s)) + 1 = unat (volume s)
            \<and> target_vol s \<le> volume (adjustVolume s))
       \<and> (volume s = target_vol s \<longrightarrow> volume (adjustVolume s) = volume s)
       \<and> volume (adjustVolume s) \<le> 60"
    using assms by (simp add: adjustVolume_def Let_def) unat_arith
  have rest: "target_vol (adjustVolume s) = target_vol s
       \<and> trace (adjustVolume s) =
           trace s @ [SetVolume (volume (adjustVolume s)) (volume (adjustVolume s))]"
    by (simp add: adjustVolume_def Let_def)
  from step rest fader kept show ?thesis by blast
qed

text \<open>
  From the initial volume 50 with the target that position 5 sets (60): one step to 51,
  and one \<^verbatim>\<open>setVolume(51, 51)\<close>.
\<close>

theorem adjustVolume_step_witness:
  "volume (setTargetVolumeByRange 5 initial) \<le> 60
   \<and> target_vol (setTargetVolumeByRange 5 initial) = 60
   \<and> volume (setTargetVolumeByRange 5 initial) < target_vol (setTargetVolumeByRange 5 initial)
   \<and> volume (adjustVolume (setTargetVolumeByRange 5 initial)) = 51
   \<and> trace (adjustVolume (setTargetVolumeByRange 5 initial)) = [SetVolume 51 51]"
proof -
  have v: "volume (setTargetVolumeByRange 5 initial) \<le> 60"
    by code_simp
  have t: "target_vol (setTargetVolumeByRange 5 initial) \<le> 60"
    by code_simp
  have now: "target_vol (setTargetVolumeByRange 5 initial) = 60
     \<and> volume (setTargetVolumeByRange 5 initial) < target_vol (setTargetVolumeByRange 5 initial)
     \<and> volume (adjustVolume (setTargetVolumeByRange 5 initial)) = 51"
    by code_simp
  have "trace (adjustVolume (setTargetVolumeByRange 5 initial)) =
          trace (setTargetVolumeByRange 5 initial) @ [SetVolume 51 51]"
    using adjustVolume_step [OF v t, of 5] now by simp
  moreover have "trace (setTargetVolumeByRange 5 initial) = []"
    by code_simp
  ultimately have tr: "trace (adjustVolume (setTargetVolumeByRange 5 initial)) = [SetVolume 51 51]"
    by simp
  from v now tr show ?thesis
    by blast
qed

section \<open>Calls, faults and what they leave alone\<close>

lemma and_then_Inr: "and_then r f = Inr y \<Longrightarrow> \<exists>a. r = Inr a \<and> f a = Inr y"
  by (cases r) (simp_all add: and_then_def)

lemma uint_succ_byte: "uint (b :: byte) < 20 \<Longrightarrow> uint (b + 1) = uint b + 1"
  by (simp add: uint_word_ariths)

lemma uint_pred_byte:
  assumes "1 \<le> uint (b :: byte)"
  shows "uint (b - 1) = uint b - 1"
proof -
  have "uint b < 256"
    using uint_bounded [of b] by simp
  with assms show ?thesis
    by (simp add: uint_word_ariths)
qed

lemma unat_succ_byte: "unat (b :: byte) < 20 \<Longrightarrow> unat (b + 1) = unat b + 1"
  by (simp add: unat_word_ariths)

lemma uint_lt_20: "uint (b :: byte) < 20 \<longleftrightarrow> unat b < 20"
  unfolding uint_nat by arith

lemma uint_eq_20: "unat (b :: byte) = 20 \<Longrightarrow> uint b = 20"
  unfolding uint_nat by arith

text \<open>Track control leaves the idle timer and the volume variables alone.\<close>

lemma quiet_refl: "quiet s s"
  by (simp add: quiet_def)

lemma quiet_trans: "quiet s t \<Longrightarrow> quiet t u \<Longrightarrow> quiet s u"
  by (auto simp: quiet_def)

lemma quiet_fields:
  "quiet s t \<Longrightarrow> quiet s (t\<lparr> last_file := a \<rparr>)"
  "quiet s t \<Longrightarrow> quiet s (t\<lparr> last_dir := b \<rparr>)"
  "quiet s t \<Longrightarrow> quiet s (t\<lparr> filename := c \<rparr>)"
  "quiet s t \<Longrightarrow> quiet s (t\<lparr> nextTrackSwitchOn := d \<rparr>)"
  "quiet s t \<Longrightarrow> quiet s (t\<lparr> previousTrackSwitchOn := d \<rparr>)"
  "quiet s t \<Longrightarrow> quiet s (t\<lparr> buttonLastChecked := f \<rparr>)"
  by (simp_all add: quiet_def)

lemma quiet_stopTrack: "quiet s (stopTrack s)"
  by (simp add: quiet_def stopTrack_def)

lemma quiet_playMp3File: "playMp3File e n s = Inr s' \<Longrightarrow> quiet s s'"
  by (auto simp: playMp3File_def Let_def quiet_def split: if_splits)

lemma quiet_playNextTrack:
  assumes "playNextTrack e s = Inr s'"
  shows "quiet s s'"
proof (cases "uint (last_file s) + 1 \<le> MAX_NUM_FILES")
  case True
  let ?s2 = "(stopTrack s)\<lparr> last_file := last_file (stopTrack s) + 1 \<rparr>"
  from True assms have "playMp3File e (last_file ?s2) ?s2 = Inr s'"
    by (simp add: playNextTrack_def Let_def)
  then have "quiet ?s2 s'"
    by (rule quiet_playMp3File)
  moreover have "quiet s ?s2"
    by (intro quiet_fields quiet_stopTrack)
  ultimately show ?thesis
    by (rule quiet_trans [rotated])
next
  case False
  with assms have "s' = s"
    by (simp add: playNextTrack_def)
  then show ?thesis
    by (simp add: quiet_refl)
qed

lemma quiet_playPreviousTrack:
  assumes "playPreviousTrack e s = Inr s'"
  shows "quiet s s'"
proof (cases "uint (last_file s) - 1 \<ge> 0")
  case True
  let ?s2 = "(stopTrack s)\<lparr> last_file := last_file (stopTrack s) - 1 \<rparr>"
  from True assms have "playMp3File e (last_file ?s2) ?s2 = Inr s'"
    by (simp add: playPreviousTrack_def Let_def)
  then have "quiet ?s2 s'"
    by (rule quiet_playMp3File)
  moreover have "quiet s ?s2"
    by (intro quiet_fields quiet_stopTrack)
  ultimately show ?thesis
    by (rule quiet_trans [rotated])
next
  case False
  with assms have "s' = s"
    by (simp add: playPreviousTrack_def)
  then show ?thesis
    by (simp add: quiet_refl)
qed

lemma quiet_readFilenames:
  assumes "readFilenames e n s = Inr s'"
  shows "quiet s s'"
proof -
  let ?s2 = "(stopPlayback s)\<lparr> filename := replicate 20 [] \<rparr>"
  from assms obtain fn where "playMp3File e 1 (?s2\<lparr> filename := fn, last_file := 0 \<rparr>) = Inr s'"
    by (auto simp: readFilenames_def Let_def split: if_splits sum.splits)
  then have "quiet (?s2\<lparr> filename := fn, last_file := 0 \<rparr>) s'"
    by (rule quiet_playMp3File)
  moreover have "quiet s (?s2\<lparr> filename := fn, last_file := 0 \<rparr>)"
    unfolding stopPlayback_def by (intro quiet_fields quiet_stopTrack)
  ultimately show ?thesis
    by (rule quiet_trans [rotated])
qed

text \<open>The first pass of the runs below ends in \<open>first_track\<close>.\<close>

lemma first_track_reached: "run card [directory 800 (at 5)] booted = Inr first_track"
  by code_simp

section \<open>Starting a track\<close>

text \<open>
  Inside the array, \<^verbatim>\<open>playMp3File\<close> never faults; it writes \<open>last_file\<close> only when the
  library answers 0, and a failed start leaves index and player as they were.
\<close>

lemma playMp3File_in_range:
  assumes "1 \<le> uint n" and "uint n \<le> 20"
  shows "playMp3File e n s =
           (let r = play e (MP3player s) (filename s ! nat (uint n - 1)) in
            Inr (s\<lparr> result := r,
                    last_file := (if r = 0 then n else last_file s),
                    MP3player := (if r = 0 then \<lparr> playing = True, position = 0 \<rparr> else MP3player s),
                    trace := trace s @ [PlayMP3 (uint n - 1) r] \<rparr>))"
  using assms by (simp add: playMp3File_def MAX_NUM_FILES_def Let_def)

lemma playMp3File_failed:
  assumes "1 \<le> uint n" and "uint n \<le> 20"
    and "play e (MP3player s) (filename s ! nat (uint n - 1)) \<noteq> 0"
  shows "seen (\<lambda>t. (last_file t, MP3player t)) (playMp3File e n s) = Inr (last_file s, MP3player s)"
  using assms by (simp add: playMp3File_in_range Let_def seen_def)

lemma playMp3File_started:
  assumes "1 \<le> uint n" and "uint n \<le> 20"
    and "play e (MP3player s) (filename s ! nat (uint n - 1)) = 0"
  shows "playMp3File e n s =
           Inr (s\<lparr> result := 0, last_file := n,
                   MP3player := \<lparr> playing = True, position = 0 \<rparr>,
                   trace := trace s @ [PlayMP3 (uint n - 1) 0] \<rparr>)"
  using assms by (simp add: playMp3File_in_range Let_def)

text \<open>
  C7, as stated: a start of playback that fails leaves the track index unchanged, the
  state being as before the attempt, also when the start comes from \<^verbatim>\<open>playNextTrack\<close>
  or \<^verbatim>\<open>playPreviousTrack\<close>. On the pulled card every start fails with code 2. Called
  directly for track 2 while the index is 1, \<^verbatim>\<open>playMp3File\<close> leaves the index at 1.
  \<^verbatim>\<open>playNextTrack\<close> from index 1, alone and within a pass of the loop, ends with index
  2, and \<^verbatim>\<open>playPreviousTrack\<close> from index 3 ends with index 2.
\<close>

theorem failed_start_moves_index:
  "last_file first_track = 1
   \<and> seen (\<lambda>s. (last_file s, result s)) (playMp3File pulled 2 first_track) = Inr (1, 2)
   \<and> seen (\<lambda>s. (last_file s, result s)) (playNextTrack pulled first_track) = Inr (2, 2)
   \<and> seen (\<lambda>s. (last_file s, result s))
        (run pulled [press_next (at 300)] first_track) = Inr (2, 2)
   \<and> seen (\<lambda>s. (last_file s, result s))
        (playPreviousTrack pulled (first_track\<lparr> last_file := 3 \<rparr>)) = Inr (2, 2)"
  by code_simp

text \<open>
  C7, amended. Let the library answer a code \<open>r\<close> other than 0 for track \<open>n\<close> in 1..20.
  A call of \<^verbatim>\<open>playMp3File(n)\<close> then stores \<open>r\<close> in \<open>result\<close> and changes nothing else:
  the index and the player are as they were when it was called.
  \<^verbatim>\<open>playNextTrack\<close> and \<^verbatim>\<open>playPreviousTrack\<close> stop the current track and move the index
  to \<open>n\<close> before they call it, so after the failed start from them nothing plays and
  the index is \<open>n\<close>, one above or below the index before. (On success the index is
  \<open>n\<close> in all three: \<open>playMp3File_started\<close>.)
\<close>

theorem failed_start_keeps_index:
  assumes "1 \<le> uint n" and "uint n \<le> 20"
    and "play e p (filename s ! nat (uint n - 1)) = r" and "r \<noteq> 0"
  shows "(p = MP3player s \<longrightarrow>
            playMp3File e n s =
              Inr (s\<lparr> result := r, trace := trace s @ [PlayMP3 (uint n - 1) r] \<rparr>))
       \<and> (p = (MP3player s)\<lparr> playing := False \<rparr> \<and> n = last_file s + 1
            \<and> uint (last_file s) < 20 \<longrightarrow>
            playNextTrack e s =
              Inr (s\<lparr> result := r, last_file := n,
                      MP3player := (MP3player s)\<lparr> playing := False \<rparr>,
                      trace := trace s @ [StopTrack, PlayMP3 (uint n - 1) r] \<rparr>))
       \<and> (p = (MP3player s)\<lparr> playing := False \<rparr> \<and> n = last_file s - 1
            \<and> 2 \<le> uint (last_file s) \<longrightarrow>
            playPreviousTrack e s =
              Inr (s\<lparr> result := r, last_file := n,
                      MP3player := (MP3player s)\<lparr> playing := False \<rparr>,
                      trace := trace s @ [StopTrack, PlayMP3 (uint n - 1) r] \<rparr>))"
proof (intro conjI impI)
  assume "p = MP3player s"
  with assms
  show "playMp3File e n s = Inr (s\<lparr> result := r, trace := trace s @ [PlayMP3 (uint n - 1) r] \<rparr>)"
    by (simp add: playMp3File_in_range Let_def)
next
  assume a: "p = (MP3player s)\<lparr> playing := False \<rparr> \<and> n = last_file s + 1
             \<and> uint (last_file s) < 20"
  let ?s2 = "(stopTrack s)\<lparr> last_file := n \<rparr>"
  from a have "playNextTrack e s = playMp3File e n ?s2"
    by (simp add: playNextTrack_def MAX_NUM_FILES_def Let_def stopTrack_def)
  also have "\<dots> = Inr (?s2\<lparr> result := r, trace := trace ?s2 @ [PlayMP3 (uint n - 1) r] \<rparr>)"
    using assms a by (simp add: playMp3File_in_range Let_def stopTrack_def)
  finally show "playNextTrack e s =
              Inr (s\<lparr> result := r, last_file := n,
                      MP3player := (MP3player s)\<lparr> playing := False \<rparr>,
                      trace := trace s @ [StopTrack, PlayMP3 (uint n - 1) r] \<rparr>)"
    by (simp add: stopTrack_def)
next
  assume a: "p = (MP3player s)\<lparr> playing := False \<rparr> \<and> n = last_file s - 1
             \<and> 2 \<le> uint (last_file s)"
  let ?s2 = "(stopTrack s)\<lparr> last_file := n \<rparr>"
  from a have "playPreviousTrack e s = playMp3File e n ?s2"
    by (simp add: playPreviousTrack_def Let_def stopTrack_def)
  also have "\<dots> = Inr (?s2\<lparr> result := r, trace := trace ?s2 @ [PlayMP3 (uint n - 1) r] \<rparr>)"
    using assms a by (simp add: playMp3File_in_range Let_def stopTrack_def)
  finally show "playPreviousTrack e s =
              Inr (s\<lparr> result := r, last_file := n,
                      MP3player := (MP3player s)\<lparr> playing := False \<rparr>,
                      trace := trace s @ [StopTrack, PlayMP3 (uint n - 1) r] \<rparr>)"
    by (simp add: stopTrack_def)
qed

text \<open>On the pulled card, from track 1: the direct call for track 2, and the next-track call.\<close>

theorem failed_start_keeps_index_witness:
  "1 \<le> uint (2 :: byte) \<and> uint (2 :: byte) \<le> 20 \<and> (2 :: byte) \<noteq> 0
   \<and> play pulled (MP3player first_track) (filename first_track ! nat (uint (2 :: byte) - 1)) = 2
   \<and> playMp3File pulled 2 first_track =
        Inr (first_track\<lparr> result := 2,
               trace := trace first_track @ [PlayMP3 (uint (2 :: byte) - 1) 2] \<rparr>)
   \<and> play pulled ((MP3player first_track)\<lparr> playing := False \<rparr>)
        (filename first_track ! nat (uint (2 :: byte) - 1)) = 2
   \<and> (2 :: byte) = last_file first_track + 1 \<and> uint (last_file first_track) < 20
   \<and> playNextTrack pulled first_track =
        Inr (first_track\<lparr> result := 2, last_file := 2,
               MP3player := (MP3player first_track)\<lparr> playing := False \<rparr>,
               trace := trace first_track @ [StopTrack, PlayMP3 (uint (2 :: byte) - 1) 2] \<rparr>)"
proof -
  have lo: "1 \<le> uint (2 :: byte)" and hi: "uint (2 :: byte) \<le> 20" and nz: "(2 :: byte) \<noteq> 0"
    by simp_all
  have direct: "play pulled (MP3player first_track)
                  (filename first_track ! nat (uint (2 :: byte) - 1)) = 2"
    and stopped: "play pulled ((MP3player first_track)\<lparr> playing := False \<rparr>)
                  (filename first_track ! nat (uint (2 :: byte) - 1)) = 2"
    by (simp_all add: pulled_def)
  have nxt: "(2 :: byte) = last_file first_track + 1 \<and> uint (last_file first_track) < 20"
    by (simp add: first_track_def)
  from failed_start_keeps_index [OF lo hi direct nz]
  have one: "playMp3File pulled 2 first_track =
        Inr (first_track\<lparr> result := 2,
               trace := trace first_track @ [PlayMP3 (uint (2 :: byte) - 1) 2] \<rparr>)"
    by blast
  from failed_start_keeps_index [OF lo hi stopped nz] nxt
  have two: "playNextTrack pulled first_track =
        Inr (first_track\<lparr> result := 2, last_file := 2,
               MP3player := (MP3player first_track)\<lparr> playing := False \<rparr>,
               trace := trace first_track @ [StopTrack, PlayMP3 (uint (2 :: byte) - 1) 2] \<rparr>)"
    by blast
  from lo hi nz direct stopped nxt one two show ?thesis
    by blast
qed

section \<open>Next track\<close>

text \<open>
  Below the capacity of 20, \<^verbatim>\<open>playNextTrack\<close> moves the index on by one whatever the
  next row holds and whatever the library answers; at the capacity it does nothing.
\<close>

lemma playNextTrack_advances:
  assumes "uint (last_file s) < 20"
  shows "seen last_file (playNextTrack e s) = Inr (last_file s + 1)"
proof -
  let ?s2 = "(stopTrack s)\<lparr> last_file := last_file (stopTrack s) + 1 \<rparr>"
  have lf: "last_file ?s2 = last_file s + 1"
    by (simp add: stopTrack_def)
  have nxt: "playNextTrack e s = playMp3File e (last_file s + 1) ?s2"
    using assms by (simp add: playNextTrack_def MAX_NUM_FILES_def Let_def stopTrack_def)
  have "1 \<le> uint (last_file s + 1)" "uint (last_file s + 1) \<le> 20"
    using assms by (simp_all add: uint_succ_byte)
  then show ?thesis
    unfolding nxt by (simp add: playMp3File_in_range Let_def seen_def lf)
qed

lemma playNextTrack_at_capacity:
  assumes "20 \<le> uint (last_file s)"
  shows "playNextTrack e s = Inr s"
  using assms by (simp add: playNextTrack_def MAX_NUM_FILES_def)

text \<open>
  C1. With the selector held on one position and nothing playing, the index moves on
  by one per pass that reads the selector and never exceeds the number of populated
  rows; on the last populated track \<^verbatim>\<open>playNextTrack\<close> does nothing. On the card with
  three tracks the sketch does so up to track 3: each pass below finds the track over
  and the selector still on position 1. The pass after track 3 moves the index to 4
  and the one after it to 5, with three populated rows, and the library answers 2 for
  the empty name it is given.
\<close>

theorem auto_continue_passes_last_track:
  "seen (\<lambda>s. (last_file s, populated (filename s), result s))
     (run card [track_ends (directory 800 (at 2000)), track_ends (directory 800 (at 4000))]
        first_track) = Inr (3, 3, 0)
   \<and> seen (\<lambda>s. (last_file s, populated (filename s), result s))
     (run card [track_ends (directory 800 (at 2000)), track_ends (directory 800 (at 4000)),
                track_ends (directory 800 (at 6000))]
        first_track) = Inr (4, 3, 2)
   \<and> seen (\<lambda>s. (last_file s, populated (filename s), result s))
     (run card [track_ends (directory 800 (at 2000)), track_ends (directory 800 (at 4000)),
                track_ends (directory 800 (at 6000)), directory 800 (at 8000)]
        first_track) = Inr (5, 3, 2)"
  by code_simp

section \<open>Previous track\<close>

lemma playPreviousTrack_none: "last_file s = 0 \<Longrightarrow> playPreviousTrack e s = Inr s"
  by (simp add: playPreviousTrack_def)

lemma playPreviousTrack_first:
  "last_file s = 1 \<Longrightarrow> playPreviousTrack e s = Inl (FilenameOutOfBounds (- 1))"
  by (simp add: playPreviousTrack_def playMp3File_def stopTrack_def Let_def)

lemma playPreviousTrack_back:
  assumes "2 \<le> uint (last_file s)" and "uint (last_file s) \<le> 21"
  shows "seen last_file (playPreviousTrack e s) = Inr (last_file s - 1)"
proof -
  let ?s2 = "(stopTrack s)\<lparr> last_file := last_file (stopTrack s) - 1 \<rparr>"
  have lf: "last_file ?s2 = last_file s - 1"
    by (simp add: stopTrack_def)
  have prev: "playPreviousTrack e s = playMp3File e (last_file s - 1) ?s2"
    using assms by (simp add: playPreviousTrack_def Let_def stopTrack_def)
  have "1 \<le> uint (last_file s - 1)" "uint (last_file s - 1) \<le> 20"
    using assms by (simp_all add: uint_pred_byte)
  then show ?thesis
    unfolding prev by (simp add: playMp3File_in_range Let_def seen_def lf)
qed

lemma loop_previous_restart:
  assumes "last_dir s > 0" and "\<not> previousTrackSwitchOn s" and "position (MP3player s) \<ge> 3000"
    and "1 \<le> uint (last_file s)" and "uint (last_file s) \<le> 20"
  shows "seen last_file (loop_previous e LOW s) = Inr (last_file s)"
proof -
  have lf: "last_file (stopTrack s) = last_file s"
    by (simp add: stopTrack_def)
  show ?thesis
    using assms
    by (simp add: loop_previous_def DEBUG_def stopPlayback_def Let_def lf playMp3File_in_range
          and_then_def seen_def)
qed

text \<open>
  C8. A press of the previous-track switch restarts the current track when it has
  played for 3000 ms or more (\<open>loop_previous_restart\<close>), steps back by one when it
  has played for less and an earlier track exists (\<open>playPreviousTrack_back\<close>), and
  does nothing when there is no earlier track. On track 1, 1200 ms into it, the
  sketch does not do nothing: the test \<^verbatim>\<open>(last_file - 1) >= 0\<close> holds, the track is
  stopped, the index becomes 0, and \<^verbatim>\<open>playMp3File(0)\<close> hands \<^verbatim>\<open>filename[-1]\<close> to the
  library.
\<close>

theorem previous_on_first_track:
  "last_dir first_track = 1 \<and> last_file first_track = 1
   \<and> position (MP3player (outside (after_ms 1200 (press_previous (at 1005))) first_track)) = 1200
   \<and> playPreviousTrack card first_track
       = playMp3File card 0 ((stopTrack first_track)\<lparr> last_file := 0 \<rparr>)
   \<and> playPreviousTrack card first_track = Inl (FilenameOutOfBounds (- 1))
   \<and> run card [after_ms 1200 (press_previous (at 1005))] first_track
       = Inl (FilenameOutOfBounds (- 1))"
  by code_simp

section \<open>The two switches\<close>

text \<open>
  A pass that finds the switch LOW and its flag set clears the flag, so the pass after
  it finds the flag clear and the switch still LOW.
\<close>

lemma loop_next_rearms:
  assumes "nextTrackSwitchOn s"
  shows "loop_next e LOW s = Inr (s\<lparr> nextTrackSwitchOn := False \<rparr>)"
  using assms by (simp add: loop_next_def)

lemma loop_previous_rearms:
  assumes "previousTrackSwitchOn s"
  shows "loop_previous e LOW s = Inr (s\<lparr> previousTrackSwitchOn := False \<rparr>)"
  using assms by (simp add: loop_previous_def)

lemma quiet_loop_previous:
  assumes "loop_previous e lv s = Inr s'"
  shows "quiet s s'"
proof (cases "\<not> DEBUG \<and> last_dir s > 0 \<and> lv = LOW \<and> \<not> previousTrackSwitchOn s")
  case True
  let ?r = "if position (MP3player s) \<ge> 3000
           then (let s1 = stopPlayback s in playMp3File e (last_file s1) s1)
           else playPreviousTrack e s"
  from True assms have "and_then ?r (\<lambda>s1. Inr (s1\<lparr> previousTrackSwitchOn := True \<rparr>)) = Inr s'"
    by (simp add: loop_previous_def)
  then obtain a where a: "?r = Inr a" and s': "s' = a\<lparr> previousTrackSwitchOn := True \<rparr>"
    by (auto dest: and_then_Inr)
  have "quiet s a"
  proof (cases "position (MP3player s) \<ge> 3000")
    case True
    with a have "playMp3File e (last_file (stopTrack s)) (stopTrack s) = Inr a"
      by (simp add: Let_def stopPlayback_def)
    then have "quiet (stopTrack s) a"
      by (rule quiet_playMp3File)
    with quiet_stopTrack show ?thesis
      by (rule quiet_trans)
  next
    case False
    with a have "playPreviousTrack e s = Inr a"
      by simp
    then show ?thesis
      by (rule quiet_playPreviousTrack)
  qed
  with s' show ?thesis
    by (simp add: quiet_fields)
next
  case False
  with assms have "s' = s\<lparr> previousTrackSwitchOn := False \<rparr>"
    by (auto simp: loop_previous_def)
  then show ?thesis
    by (simp add: quiet_fields quiet_refl)
qed

lemma quiet_loop_next:
  assumes "loop_next e lv s = Inr s'"
  shows "quiet s s'"
proof (cases "last_dir s > 0 \<and> lv = LOW \<and> \<not> nextTrackSwitchOn s")
  case True
  with assms have "and_then (playNextTrack e s) (\<lambda>s1. Inr (s1\<lparr> nextTrackSwitchOn := True \<rparr>)) = Inr s'"
    by (simp add: loop_next_def)
  then obtain a where a: "playNextTrack e s = Inr a" and s': "s' = a\<lparr> nextTrackSwitchOn := True \<rparr>"
    by (auto dest: and_then_Inr)
  from quiet_playNextTrack [OF a] s' show ?thesis
    by (simp add: quiet_fields)
next
  case False
  with assms have "s' = s\<lparr> nextTrackSwitchOn := False \<rparr>"
    by (auto simp: loop_next_def)
  then show ?thesis
    by (simp add: quiet_fields quiet_refl)
qed

text \<open>
  C2. A switch held LOW over many passes dispatches one track change, and only a
  release arms it again. With the next-track switch LOW in three consecutive passes
  and never released, the sketch starts track 2 in the first pass, clears
  \<open>nextTrackSwitchOn\<close> in the second, and starts track 3 in the third: two starts for
  one press. The flag of the previous-track switch is cleared in the same way in the
  second pass of a press.
\<close>

theorem held_next_switch_fires_again:
  "seen (\<lambda>s. (last_file s, nextTrackSwitchOn s, drop (length (trace first_track)) (trace s)))
     (run card [press_next (at 300)] first_track)
     = Inr (2, True, [StopTrack, PlayMP3 1 0, SetVolume 50 50])
   \<and> seen (\<lambda>s. (last_file s, nextTrackSwitchOn s, drop (length (trace first_track)) (trace s)))
     (run card [press_next (at 300), press_next (at 301)] first_track)
     = Inr (2, False, [StopTrack, PlayMP3 1 0, SetVolume 50 50, SetVolume 50 50])
   \<and> seen (\<lambda>s. (last_file s, nextTrackSwitchOn s, drop (length (trace first_track)) (trace s)))
     (run card [press_next (at 300), press_next (at 301), press_next (at 302)] first_track)
     = Inr (3, True, [StopTrack, PlayMP3 1 0, SetVolume 50 50, SetVolume 50 50,
                      StopTrack, PlayMP3 2 0, SetVolume 50 50])
   \<and> seen previousTrackSwitchOn
     (run card [after_ms 3200 (press_previous (at 1005))] first_track) = Inr True
   \<and> seen previousTrackSwitchOn
     (run card [after_ms 3200 (press_previous (at 1005)), press_previous (at 1006)] first_track)
     = Inr False"
  by code_simp

section \<open>The directory selector\<close>

lemma loop_directory_flag:
  assumes "loop_directory e val (det, s) = Inr (det', s')"
  shows "quiet s s'"
    and "det' \<longleftrightarrow> det \<or> (buttonPushed val \<noteq> 0 \<and> buttonPushed val \<noteq> uint (last_dir s))
                      \<or> (buttonPushed val = 0 \<and> playing (MP3player s))"
proof -
  consider (new) "buttonPushed val \<noteq> 0" "buttonPushed val \<noteq> uint (last_dir s)"
    | (same) "buttonPushed val \<noteq> 0" "buttonPushed val = uint (last_dir s)"
    | (none) "buttonPushed val = 0"
    by blast
  then have "quiet s s' \<and> (det' \<longleftrightarrow> det \<or> (buttonPushed val \<noteq> 0 \<and> buttonPushed val \<noteq> uint (last_dir s))
                      \<or> (buttonPushed val = 0 \<and> playing (MP3player s)))"
  proof cases
    case new
    let ?s1 = "s\<lparr> last_dir := word_of_int (buttonPushed val) \<rparr>"
    let ?s2 = "if playing (MP3player ?s1) then stopPlayback ?s1 else ?s1"
    from new assms have "and_then (readFilenames e (word_of_int (buttonPushed val)) ?s2)
        (\<lambda>s2. Inr (True, s2)) = Inr (det', s')"
      by (simp add: loop_directory_def Let_def)
    then obtain a where a: "readFilenames e (word_of_int (buttonPushed val)) ?s2 = Inr a"
        and "Inr (True, a) = (Inr (det', s') :: fault + bool \<times> state)"
      by (blast dest: and_then_Inr)
    then have eq: "det' = True" "s' = a"
      by simp_all
    have "quiet s ?s2"
      by (simp add: stopPlayback_def quiet_fields quiet_stopTrack quiet_refl quiet_def stopTrack_def)
    with quiet_readFilenames [OF a] have "quiet s a"
      by (rule quiet_trans [rotated])
    with eq new show ?thesis
      by simp
  next
    case same
    show ?thesis
    proof (cases "playing (MP3player s)")
      case True
      with same assms show ?thesis
        by (simp add: loop_directory_def Let_def quiet_refl)
    next
      case False
      with same assms have "and_then (playNextTrack e s) (\<lambda>s1. Inr (det, s1)) = Inr (det', s')"
        by (simp add: loop_directory_def Let_def)
      then obtain a where a: "playNextTrack e s = Inr a"
        and "Inr (det, a) = (Inr (det', s') :: fault + bool \<times> state)"
        by (blast dest: and_then_Inr)
      then have "det' = det" "s' = a"
        by simp_all
      with quiet_playNextTrack [OF a] same show ?thesis
        by simp
    qed
  next
    case none
    with assms show ?thesis
      by (auto simp: loop_directory_def Let_def stopPlayback_def stopTrack_def quiet_def
               split: if_splits)
  qed
  then show "quiet s s'"
    and "det' \<longleftrightarrow> det \<or> (buttonPushed val \<noteq> 0 \<and> buttonPushed val \<noteq> uint (last_dir s))
                      \<or> (buttonPushed val = 0 \<and> playing (MP3player s))"
    by blast+
qed

text \<open>
  A new nonzero position always goes on to \<^verbatim>\<open>readFilenames\<close>: the test
  \<^verbatim>\<open>!dirname[buttNum - 1]\<close> is on the address of a row and never holds, whatever the row
  contains.
\<close>

lemma loop_directory_new_position:
  assumes "buttonPushed val \<noteq> 0" and "buttonPushed val \<noteq> uint (last_dir s)"
  shows "loop_directory e val (det, s) =
           and_then
             (readFilenames e (word_of_int (buttonPushed val))
                (if playing (MP3player s)
                 then stopPlayback (s\<lparr> last_dir := word_of_int (buttonPushed val) \<rparr>)
                 else s\<lparr> last_dir := word_of_int (buttonPushed val) \<rparr>))
             (\<lambda>s2. Inr (True, s2))"
  using assms by (simp add: loop_directory_def Let_def)

text \<open>
  C6. A new nonzero position without a directory changes nothing: playback goes on,
  the list of names and the track index stay. On the card there is no directory for
  position 3 and \<open>dirname[2]\<close> is empty. With track 1 of directory 1 playing and the
  selector moved to position 3 (sample 450), the pass stops the track, empties the
  list, sets the track index to 0 and asks the library for the empty name.
\<close>

theorem unregistered_directory_is_loaded:
  "dirname first_track ! 2 = []
   \<and> buttonPushed 450 = 3
   \<and> (last_dir first_track, last_file first_track, populated (filename first_track),
        playing (MP3player first_track)) = (1, 1, 3, True)
   \<and> seen (\<lambda>s. (last_dir s, last_file s, populated (filename s), playing (MP3player s),
                drop (length (trace first_track)) (trace s)))
        (run card [directory 450 (at 3005)] first_track)
       = Inr (3, 0, 0, False, [StopTrack, StopTrack, PlayMP3 0 2, SetVolume 50 50])"
  by code_simp

section \<open>Array bounds\<close>

lemma store_files_step:
  "first_char n \<noteq> 95 \<Longrightarrow> unat index < 20 \<Longrightarrow>
     store_files (n # ns) index fn = store_files ns (index + 1) (fn[unat index := n])"
  "first_char n \<noteq> 95 \<Longrightarrow> unat index = 20 \<Longrightarrow>
     store_files (n # ns) index fn = Inl (FilenameOutOfBounds 20)"
  "first_char n = 95 \<Longrightarrow> store_files (n # ns) index fn = store_files ns index fn"
proof -
  show "first_char n \<noteq> 95 \<Longrightarrow> unat index < 20 \<Longrightarrow>
     store_files (n # ns) index fn = store_files ns (index + 1) (fn[unat index := n])"
    by (simp add: MAX_NUM_FILES_def uint_lt_20)
  show "first_char n \<noteq> 95 \<Longrightarrow> unat index = 20 \<Longrightarrow>
     store_files (n # ns) index fn = Inl (FilenameOutOfBounds 20)"
    by (simp add: MAX_NUM_FILES_def uint_lt_20 uint_eq_20)
  show "first_char n = 95 \<Longrightarrow> store_files (n # ns) index fn = store_files ns index fn"
    by simp
qed

text \<open>
  The list has room for 20 names. Up to 20 eligible names are stored; with more, the
  21st is written to \<^verbatim>\<open>filename[20]\<close>.
\<close>

lemma store_files_room:
  assumes "unat index + length (filter (\<lambda>n. first_char n \<noteq> 95) ns) \<le> 20"
  shows "\<exists>fn'. store_files ns index fn = Inr fn'"
  using assms
proof (induction ns arbitrary: index fn)
  case Nil
  then show ?case by simp
next
  case (Cons n ns)
  show ?case
  proof (cases "first_char n \<noteq> 95")
    case True
    with Cons.prems have lt: "unat index < 20"
      by simp
    then have "unat (index + 1) = unat index + 1"
      by (rule unat_succ_byte)
    with Cons.prems True have "unat (index + 1) + length (filter (\<lambda>n. first_char n \<noteq> 95) ns) \<le> 20"
      by simp
    from Cons.IH [OF this] show ?thesis
      unfolding store_files_step(1) [OF True lt] .
  next
    case False
    then have skip: "first_char n = 95"
      by simp
    from Cons.prems skip have "unat index + length (filter (\<lambda>n. first_char n \<noteq> 95) ns) \<le> 20"
      by simp
    from Cons.IH [OF this] show ?thesis
      unfolding store_files_step(3) [OF skip] .
  qed
qed

lemma store_files_overflow:
  assumes "unat index + length (filter (\<lambda>n. first_char n \<noteq> 95) ns) > 20" and "unat index \<le> 20"
  shows "store_files ns index fn = Inl (FilenameOutOfBounds 20)"
  using assms
proof (induction ns arbitrary: index fn)
  case Nil
  then show ?case by simp
next
  case (Cons n ns)
  show ?case
  proof (cases "first_char n \<noteq> 95")
    case True
    show ?thesis
    proof (cases "unat index < 20")
      case lt: True
      then have suc: "unat (index + 1) = unat index + 1"
        by (rule unat_succ_byte)
      with Cons.prems True lt
      have "unat (index + 1) + length (filter (\<lambda>n. first_char n \<noteq> 95) ns) > 20"
        and "unat (index + 1) \<le> 20"
        by simp_all
      from Cons.IH [OF this] show ?thesis
        unfolding store_files_step(1) [OF True lt] .
    next
      case False
      with Cons.prems have "unat index = 20"
        by simp
      from store_files_step(2) [OF True this] show ?thesis .
    qed
  next
    case False
    then have skip: "first_char n = 95"
      by simp
    from Cons.prems skip have "unat index + length (filter (\<lambda>n. first_char n \<noteq> 95) ns) > 20"
      and "unat index \<le> 20"
      by simp_all
    from Cons.IH [OF this] show ?thesis
      unfolding store_files_step(3) [OF skip] .
  qed
qed

lemma readFilenames_overflow:
  assumes "1 \<le> uint dirNum" and "uint dirNum \<le> 5"
    and "files e (dirname s ! nat (uint dirNum - 1)) = Some ns"
    and "length (filter (\<lambda>n. first_char n \<noteq> 95) ns) > 20"
  shows "readFilenames e dirNum s = Inl (FilenameOutOfBounds 20)"
proof -
  have "unat (0 :: byte) + length (filter (\<lambda>n. first_char n \<noteq> 95) ns) > 20"
    and "unat (0 :: byte) \<le> 20"
    using assms(4) by simp_all
  then have "store_files ns 0 (replicate 20 []) = Inl (FilenameOutOfBounds 20)"
    by (rule store_files_overflow)
  with assms(1-3) show ?thesis
    by (simp add: readFilenames_def stopPlayback_def stopTrack_def Let_def)
qed

text \<open>
  C4. Every read and write of \<open>filename\<close> uses an index in 0..19. The sketch breaks
  this in two places. \<^verbatim>\<open>readFilenames\<close> on a directory of 21 tracks writes the last
  name to \<^verbatim>\<open>filename[20]\<close>: the first pass on such a card faults there. And
  \<^verbatim>\<open>playPreviousTrack\<close> on track 1 forms \<^verbatim>\<open>filename[-1]\<close> in its test and then lets
  the library read it.
\<close>

theorem out_of_bounds_rows:
  "run long_card [directory 800 (at 5)] booted = Inl (FilenameOutOfBounds 20)
   \<and> readFilenames long_card 1 booted = Inl (FilenameOutOfBounds 20)
   \<and> last_file first_track = 1
   \<and> playPreviousTrack card first_track = Inl (FilenameOutOfBounds (- 1))"
  by code_simp

section \<open>The idle timer\<close>

lemma count_track_events: "list_all track_event evs \<Longrightarrow> count_list evs SleepMode = 0"
  by (induction evs) auto

lemma loop_volume_flag:
  assumes "loop_volume val (det, s) = (det', s')"
  shows "sleepCounter s' = sleepCounter s \<and> volume s' = volume s \<and> trace s' = trace s
         \<and> (det' \<longleftrightarrow> det \<or> (buttonPushed val \<noteq> 0 \<and> buttonPushed val \<noteq> uint (target_vol_range s)))
         \<and> (target_vol s' = target_vol s \<or> target_vol s' \<le> 60)"
proof (cases "buttonPushed val \<noteq> 0 \<and> buttonPushed val \<noteq> uint (target_vol_range s)")
  case True
  with assms have "det'"
    and s': "s' = setTargetVolumeByRange (word_of_int (buttonPushed val))
                    (s\<lparr> target_vol_range := word_of_int (buttonPushed val) \<rparr>)"
    by (simp_all add: loop_volume_def Let_def)
  moreover have "target_vol s' \<le> 60"
    unfolding s' by (rule setTargetVolumeByRange_le)
  moreover have "sleepCounter s' = sleepCounter s \<and> volume s' = volume s \<and> trace s' = trace s"
    unfolding s' by (simp add: setTargetVolumeByRange_def Let_def)
  ultimately show ?thesis
    using True by simp
next
  case False
  with assms have "det' = det" "s' = s"
    by (auto simp: loop_volume_def Let_def)
  with False show ?thesis
    by auto
qed

lemma loop_selectors_flag:
  assumes "and_then (loop_directory e dv (False, s0))
             (\<lambda>ds. case loop_volume vv ds of (det, s1) \<Rightarrow> Inr (det, s1\<lparr> buttonLastChecked := t \<rparr>))
           = Inr (d2, sc)"
  shows "sleepCounter sc = sleepCounter s0 \<and> volume sc = volume s0
       \<and> (\<exists>evs. trace sc = trace s0 @ evs \<and> list_all track_event evs)
       \<and> (target_vol sc = target_vol s0 \<or> target_vol sc \<le> 60)
       \<and> (d2 \<longleftrightarrow> (buttonPushed dv \<noteq> 0 \<and> buttonPushed dv \<noteq> uint (last_dir s0))
                 \<or> (buttonPushed dv = 0 \<and> playing (MP3player s0))
                 \<or> (buttonPushed vv \<noteq> 0 \<and> buttonPushed vv \<noteq> uint (target_vol_range s0)))"
proof -
  from assms obtain ds where ds: "loop_directory e dv (False, s0) = Inr ds"
    and rest: "(case loop_volume vv ds of (det, s1) \<Rightarrow> Inr (det, s1\<lparr> buttonLastChecked := t \<rparr>))
               = (Inr (d2, sc) :: fault + bool \<times> state)"
    by (blast dest: and_then_Inr)
  obtain d1 sa where [simp]: "ds = (d1, sa)"
    by (cases ds)
  obtain d2' sb where vol: "loop_volume vv (d1, sa) = (d2', sb)"
    by (cases "loop_volume vv (d1, sa)")
  with rest have d2: "d2 = d2'" and sc: "sc = sb\<lparr> buttonLastChecked := t \<rparr>"
    by simp_all
  from ds have ds': "loop_directory e dv (False, s0) = Inr (d1, sa)"
    by simp
  note q = loop_directory_flag(1) [OF ds'] and d1 = loop_directory_flag(2) [OF ds']
  from loop_volume_flag [OF vol] q d1 d2 sc show ?thesis
    by (auto simp: quiet_def)
qed

text \<open>
  Whatever the pass does before the sleep block, \<open>detectedInteraction\<close> is
  \<open>interaction\<close> of the inputs and the state at the start of the pass, and the idle
  timer is still untouched.
\<close>

lemma loop_poll_flag:
  assumes "loop_poll e i s = Inr (det, s1)"
  shows "det = interaction i s \<and> sleepCounter s1 = sleepCounter s \<and> volume s1 = volume s
       \<and> (\<exists>evs. trace s1 = trace s @ evs \<and> list_all track_event evs)
       \<and> (target_vol s1 = target_vol s \<or> target_vol s1 \<le> 60)"
proof -
  let ?s0 = "if buttonLastChecked s = 0
             then s\<lparr> buttonLastChecked := millis_first i + BUTTONDELAY \<rparr> else s"
  let ?A = "if millis_check i - buttonLastChecked ?s0 > BUTTONDELAY then
              and_then (loop_directory e (directory_sample i) (False, ?s0))
                (\<lambda>ds. case loop_volume (volume_sample i) ds of
                         (det, s1) \<Rightarrow> Inr (det, s1\<lparr> buttonLastChecked := millis_checked i \<rparr>))
            else Inr (False, ?s0)"
  have s0: "sleepCounter ?s0 = sleepCounter s" "volume ?s0 = volume s" "trace ?s0 = trace s"
    "target_vol ?s0 = target_vol s"
    "last_dir ?s0 = last_dir s" "MP3player ?s0 = MP3player s"
    "target_vol_range ?s0 = target_vol_range s"
    by simp_all
  have due: "due i s \<longleftrightarrow> millis_check i - buttonLastChecked ?s0 > BUTTONDELAY"
    by (simp add: due_def)
  let ?B = "\<lambda>(det, s1).
              and_then (loop_previous e (previousTrackSwitchState i) s1)
                (\<lambda>s2. and_then (loop_next e (nextTrackSwitchState i) s2)
                   (\<lambda>s3. Inr (if nextTrackSwitchState i = LOW then True else det, s3)))"
  from assms have "and_then ?A ?B = Inr (det, s1)"
    unfolding loop_poll_def Let_def .
  then obtain p where A: "?A = Inr p" and B': "?B p = Inr (det, s1)"
    by (blast dest: and_then_Inr)
  obtain d2 sc where p [simp]: "p = (d2, sc)"
    by (cases p)
  from B' have B: "and_then (loop_previous e (previousTrackSwitchState i) sc)
                (\<lambda>s2. and_then (loop_next e (nextTrackSwitchState i) s2)
                   (\<lambda>s3. Inr (if nextTrackSwitchState i = LOW then True else d2, s3)))
            = Inr (det, s1)"
    by simp
  from and_then_Inr [OF B] obtain sd
    where sd: "loop_previous e (previousTrackSwitchState i) sc = Inr sd"
    and C: "and_then (loop_next e (nextTrackSwitchState i) sd)
              (\<lambda>s3. Inr (if nextTrackSwitchState i = LOW then True else d2, s3)) = Inr (det, s1)"
    by blast
  from and_then_Inr [OF C] obtain se
    where "loop_next e (nextTrackSwitchState i) sd = Inr se"
    and "Inr (if nextTrackSwitchState i = LOW then True else d2, se)
         = (Inr (det, s1) :: fault + bool \<times> state)"
    by blast
  then have se: "loop_next e (nextTrackSwitchState i) sd = Inr s1"
    and det: "det = (if nextTrackSwitchState i = LOW then True else d2)"
    by simp_all
  have "quiet sc s1"
    using quiet_loop_previous [OF sd] quiet_loop_next [OF se] by (rule quiet_trans)
  then have tail: "sleepCounter s1 = sleepCounter sc" "volume s1 = volume sc"
    "\<exists>evs. trace s1 = trace sc @ evs \<and> list_all track_event evs"
    "target_vol s1 = target_vol sc"
    by (simp_all add: quiet_def)
  have head: "sleepCounter sc = sleepCounter s \<and> volume sc = volume s
       \<and> (\<exists>evs. trace sc = trace s @ evs \<and> list_all track_event evs)
       \<and> (target_vol sc = target_vol s \<or> target_vol sc \<le> 60)
       \<and> (d2 \<longleftrightarrow> due i s \<and>
             ((buttonPushed (directory_sample i) \<noteq> 0
                \<and> buttonPushed (directory_sample i) \<noteq> uint (last_dir s))
              \<or> (buttonPushed (directory_sample i) = 0 \<and> playing (MP3player s))
              \<or> (buttonPushed (volume_sample i) \<noteq> 0
                  \<and> buttonPushed (volume_sample i) \<noteq> uint (target_vol_range s))))"
  proof (cases "due i s")
    case True
    with A due have "and_then (loop_directory e (directory_sample i) (False, ?s0))
                (\<lambda>ds. case loop_volume (volume_sample i) ds of
                         (det, s1) \<Rightarrow> Inr (det, s1\<lparr> buttonLastChecked := millis_checked i \<rparr>))
              = Inr (d2, sc)"
      by simp
    from loop_selectors_flag [OF this] True show ?thesis
      unfolding s0 by simp
  next
    case False
    with A due have "d2 = False" "sc = ?s0"
      by simp_all
    with False s0 show ?thesis
      by simp
  qed
  from head tail det show ?thesis
    by (auto simp: interaction_def)
qed

text \<open>
  C5, as stated: the idle timer is reset exactly when a flag was raised in the pass (a
  new directory position, a new volume position, an edge of a switch) or a track
  plays, and otherwise time adds up until sleep. After start-up with both selectors
  open and nothing playing, the next-track switch is pressed at time 5 and held. The
  pass at time 30000 still reads it LOW: no edge, no new position, no track. Had the
  switch been released, that pass would go to sleep; held, it resets the timer to
  30000 and does not sleep.
\<close>

theorem held_next_switch_keeps_awake:
  "buttonPushed (directory_sample (reads (press_next (at 30000)))) = 0
   \<and> buttonPushed (volume_sample (reads (press_next (at 30000)))) = 0
   \<and> previousTrackSwitchState (reads (press_next (at 30000))) = HIGH
   \<and> nextTrackSwitchState (reads (press_next (at 5))) = LOW
   \<and> nextTrackSwitchState (reads (press_next (at 30000))) = LOW
   \<and> seen (\<lambda>s. (sleepCounter s, playing (MP3player s)))
        (run card [press_next (at 5)] booted) = Inr (5, False)
   \<and> seen (\<lambda>s. (sleepCounter s, SleepMode \<in> set (trace s), playing (MP3player s)))
        (run card [press_next (at 5), press_next (at 30000)] booted) = Inr (30000, False, False)
   \<and> seen (\<lambda>s. (sleepCounter s, SleepMode \<in> set (trace s), playing (MP3player s)))
        (run card [press_next (at 5), at 30000] booted) = Inr (30000, True, False)"
  by code_simp

text \<open>
  C5, amended. In a pass in which the previous-track switch is not pressed, the idle
  timer is set to the current time exactly when \<open>detectedInteraction\<close> was raised, or
  a track plays when the sleep block runs, or neither holds and the time since the
  last reset has reached \<open>SLEEP_DELAY\<close>; in the last case, and only then, the pass goes
  to sleep. Otherwise the timer is unchanged. \<open>detectedInteraction\<close> is raised by the
  next-track switch reading LOW (the level, in every pass while it is held) and, in a
  pass that reads the selectors, by a new nonzero directory position, by the directory
  selector reading 0 while a track plays, and by a new nonzero volume position.
\<close>

theorem idle_timer_rule:
  assumes "loop e i s = Inr s'" and "previousTrackSwitchState i = HIGH"
  shows "sleepCounter s' =
           (if interaction i s \<or> playing (MP3player s')
               \<or> SLEEP_DELAY \<le> millis_sleep i - sleepCounter s
            then millis_reset i else sleepCounter s)
       \<and> count_list (trace s') SleepMode =
           count_list (trace s) SleepMode
           + (if \<not> interaction i s \<and> \<not> playing (MP3player s')
                 \<and> SLEEP_DELAY \<le> millis_sleep i - sleepCounter s
              then 1 else 0)"
proof -
  from and_then_Inr [OF assms(1) [unfolded loop_def]] obtain p
    where poll: "loop_poll e i s = Inr p"
      and "(case p of (det, s1) \<Rightarrow> Inr (adjustVolume (loop_sleep i det s1))) = (Inr s' :: fault + state)"
    by blast
  then obtain det s1 where p: "p = (det, s1)" and s': "s' = adjustVolume (loop_sleep i det s1)"
    by (cases p) auto
  from poll p have "loop_poll e i s = Inr (det, s1)"
    by simp
  from loop_poll_flag [OF this] obtain evs
    where det: "det = interaction i s" and sc: "sleepCounter s1 = sleepCounter s"
      and tr: "trace s1 = trace s @ evs" and evs: "list_all track_event evs"
    by blast
  have pl: "playing (MP3player s') = playing (MP3player s1)"
    by (simp add: s' adjustVolume_def loop_sleep_def sleepNow_def Let_def)
  have "count_list (trace s1) SleepMode = count_list (trace s) SleepMode"
    by (simp add: tr count_track_events [OF evs])
  with det sc pl show ?thesis
    by (simp add: s' adjustVolume_def loop_sleep_def sleepNow_def Let_def)
qed

text \<open>
  At time 30000 after start-up, with nothing pressed and nothing playing: no flag, the
  time is up, the timer is reset and the pass sleeps once.
\<close>

theorem idle_timer_rule_witness:
  "loop card (reads (at 30000)) booted =
     Inr (booted\<lparr> buttonLastChecked := 30000, sleepCounter := 30000,
                  trace := [AttachInterrupt, SleepMode, DetachInterrupt, SetVolume 50 50] \<rparr>)
   \<and> previousTrackSwitchState (reads (at 30000)) = HIGH
   \<and> \<not> interaction (reads (at 30000)) booted
   \<and> sleepCounter (booted\<lparr> buttonLastChecked := 30000, sleepCounter := 30000,
                  trace := [AttachInterrupt, SleepMode, DetachInterrupt, SetVolume 50 50] \<rparr>)
       = millis_reset (reads (at 30000))
   \<and> count_list (trace (booted\<lparr> buttonLastChecked := 30000, sleepCounter := 30000,
                  trace := [AttachInterrupt, SleepMode, DetachInterrupt, SetVolume 50 50] \<rparr>))
         SleepMode = count_list (trace booted) SleepMode + 1"
proof -
  let ?s' = "booted\<lparr> buttonLastChecked := 30000, sleepCounter := 30000,
                  trace := [AttachInterrupt, SleepMode, DetachInterrupt, SetVolume 50 50] \<rparr>"
  have pass: "loop card (reads (at 30000)) booted = Inr ?s'"
    by code_simp
  have prev: "previousTrackSwitchState (reads (at 30000)) = HIGH"
    by code_simp
  have facts: "\<not> interaction (reads (at 30000)) booted" "\<not> playing (MP3player ?s')"
    "SLEEP_DELAY \<le> millis_sleep (reads (at 30000)) - sleepCounter booted"
    by code_simp+
  from idle_timer_rule [OF pass prev] facts
  have "sleepCounter ?s' = millis_reset (reads (at 30000))
        \<and> count_list (trace ?s') SleepMode = count_list (trace booted) SleepMode + 1"
    by simp
  with pass prev facts show ?thesis
    by blast
qed

text \<open>
  A pass in which only the previous-track switch is pressed, at time 30000 after
  start-up, sleeps.
\<close>

lemma previous_press_is_no_source:
  "seen (\<lambda>s. (sleepCounter s, SleepMode \<in> set (trace s)))
     (run card [press_previous (at 30000)] booted) = Inr (30000, True)"
  by code_simp

section \<open>Releasing the directory selector\<close>










section \<open>The volume over whole passes\<close>

lemma no_volume_in_track_events: "list_all track_event evs \<Longrightarrow> filter volume_event evs = []"
proof (induction evs)
  case Nil
  then show ?case by simp
next
  case (Cons ev evs)
  then show ?case by (cases ev) simp_all
qed

lemma adjustVolume_bounds:
  assumes "volume s \<le> 60" and "target_vol s \<le> 60"
  shows "volume (adjustVolume s) \<le> 60 \<and> target_vol (adjustVolume s) \<le> 60
       \<and> unat (volume (adjustVolume s)) \<le> unat (volume s) + 1
       \<and> unat (volume s) \<le> unat (volume (adjustVolume s)) + 1"
  using assms by (simp add: adjustVolume_def Let_def) unat_arith

text \<open>
  A pass of the loop that starts with volume and target in 0..60 ends with both in
  0..60, has moved the volume by at most one unit, and has called \<^verbatim>\<open>setVolume\<close> exactly
  once, with the new volume. So does every run of passes.
\<close>

lemma loop_volume_step:
  assumes "loop e i s = Inr s'" and "volume s \<le> 60" and "target_vol s \<le> 60"
  shows "volume s' \<le> 60 \<and> target_vol s' \<le> 60
       \<and> unat (volume s') \<le> unat (volume s) + 1 \<and> unat (volume s) \<le> unat (volume s') + 1
       \<and> filter volume_event (trace s') =
           filter volume_event (trace s) @ [SetVolume (volume s') (volume s')]"
proof -
  from and_then_Inr [OF assms(1) [unfolded loop_def]] obtain p
    where poll: "loop_poll e i s = Inr p"
      and "(case p of (det, s1) \<Rightarrow> Inr (adjustVolume (loop_sleep i det s1))) = (Inr s' :: fault + state)"
    by blast
  then obtain det s1 where p: "p = (det, s1)" and s': "s' = adjustVolume (loop_sleep i det s1)"
    by (cases p) auto
  from poll p have "loop_poll e i s = Inr (det, s1)"
    by simp
  from loop_poll_flag [OF this] obtain evs
    where vol: "volume s1 = volume s" and tr: "trace s1 = trace s @ evs"
      and evs: "list_all track_event evs"
      and tv: "target_vol s1 = target_vol s \<or> target_vol s1 \<le> 60"
    by blast
  let ?t = "loop_sleep i det s1"
  have t: "volume ?t = volume s" "target_vol ?t = target_vol s1"
    by (simp_all add: loop_sleep_def sleepNow_def vol)
  have trt: "filter volume_event (trace ?t) = filter volume_event (trace s)"
    by (simp add: loop_sleep_def sleepNow_def tr no_volume_in_track_events [OF evs])
  from tv assms(3) have "target_vol ?t \<le> 60"
    unfolding t by auto
  with assms(2) t(1) have "volume ?t \<le> 60" "target_vol ?t \<le> 60"
    by simp_all
  from adjustVolume_bounds [OF this] t(1) have bounds: "volume s' \<le> 60 \<and> target_vol s' \<le> 60
       \<and> unat (volume s') \<le> unat (volume s) + 1 \<and> unat (volume s) \<le> unat (volume s') + 1"
    unfolding s' by simp
  have "trace s' = trace ?t @ [SetVolume (volume s') (volume s')]"
    unfolding s' by (simp add: adjustVolume_def Let_def)
  with trt have "filter volume_event (trace s') =
           filter volume_event (trace s) @ [SetVolume (volume s') (volume s')]"
    by simp
  with bounds show ?thesis
    by blast
qed

lemma run_volume_bounds:
  assumes "run e ps s = Inr s'" and "volume s \<le> 60" and "target_vol s \<le> 60"
  shows "volume s' \<le> 60 \<and> target_vol s' \<le> 60
       \<and> length (filter volume_event (trace s')) =
           length (filter volume_event (trace s)) + length ps"
  using assms
proof (induction ps arbitrary: s)
  case Nil
  then show ?case by simp
next
  case (Cons p ps)
  from Cons.prems(1) obtain t where t: "loop e (reads p) (outside p s) = Inr t"
    and rest: "run e ps t = Inr s'"
    by (auto dest: and_then_Inr)
  have "volume (outside p s) \<le> 60" "target_vol (outside p s) \<le> 60"
    using Cons.prems(2,3) by (simp_all add: outside_def)
  from loop_volume_step [OF t this]
  have vt: "volume t \<le> 60" "target_vol t \<le> 60"
    and "length (filter volume_event (trace t)) = length (filter volume_event (trace s)) + 1"
    by (simp_all add: outside_def)
  with Cons.IH [OF rest vt] show ?case
    by simp
qed

section \<open>The track index and the capacity\<close>

text \<open>
  The bound that the sketch does keep on \<open>last_file\<close> is the capacity of the list: no
  pass and no run takes it above \<open>MAX_NUM_FILES\<close>.
\<close>

lemma index_playMp3File:
  assumes "playMp3File e n s = Inr s'" and "uint (last_file s) \<le> 20"
  shows "uint (last_file s') \<le> 20"
  using assms by (auto simp: playMp3File_def Let_def MAX_NUM_FILES_def split: if_splits)

lemma index_playNextTrack:
  assumes "playNextTrack e s = Inr s'" and "uint (last_file s) \<le> 20"
  shows "uint (last_file s') \<le> 20"
proof (cases "uint (last_file s) < 20")
  case True
  from playNextTrack_advances [OF this, of e] assms(1) have "last_file s' = last_file s + 1"
    by (simp add: seen_def)
  with True show ?thesis
    by (simp add: uint_succ_byte)
next
  case False
  with assms(2) have "20 \<le> uint (last_file s)"
    by simp
  from playNextTrack_at_capacity [OF this, of e] assms show ?thesis
    by simp
qed

lemma index_playPreviousTrack:
  assumes "playPreviousTrack e s = Inr s'" and "uint (last_file s) \<le> 20"
  shows "uint (last_file s') \<le> 20"
proof (cases "uint (last_file s) - 1 \<ge> 0")
  case True
  let ?s2 = "(stopTrack s)\<lparr> last_file := last_file (stopTrack s) - 1 \<rparr>"
  from True assms(1) have "playMp3File e (last_file ?s2) ?s2 = Inr s'"
    by (simp add: playPreviousTrack_def Let_def)
  moreover from True assms(2) have "uint (last_file ?s2) \<le> 20"
    by (simp add: stopTrack_def uint_pred_byte)
  ultimately show ?thesis
    by (rule index_playMp3File)
next
  case False
  with assms show ?thesis
    by (simp add: playPreviousTrack_def)
qed

lemma index_readFilenames:
  assumes "readFilenames e n s = Inr s'"
  shows "uint (last_file s') \<le> 20"
proof -
  let ?s2 = "(stopPlayback s)\<lparr> filename := replicate 20 [] \<rparr>"
  from assms obtain fn where "playMp3File e 1 (?s2\<lparr> filename := fn, last_file := 0 \<rparr>) = Inr s'"
    by (auto simp: readFilenames_def Let_def split: if_splits sum.splits)
  moreover have "uint (last_file (?s2\<lparr> filename := fn, last_file := 0 \<rparr>)) \<le> 20"
    by simp
  ultimately show ?thesis
    by (rule index_playMp3File)
qed

lemma index_loop_directory:
  assumes "loop_directory e val (det, s) = Inr (det', s')" and "uint (last_file s) \<le> 20"
  shows "uint (last_file s') \<le> 20"
proof -
  consider (new) "buttonPushed val \<noteq> 0" "buttonPushed val \<noteq> uint (last_dir s)"
    | (same) "buttonPushed val \<noteq> 0" "buttonPushed val = uint (last_dir s)"
    | (none) "buttonPushed val = 0"
    by blast
  then show ?thesis
  proof cases
    case new
    from assms(1) and_then_Inr [of _ "\<lambda>s2. Inr (True, s2)" "(det', s')"] obtain a
      where "readFilenames e (word_of_int (buttonPushed val))
               (if playing (MP3player s)
                then stopPlayback (s\<lparr> last_dir := word_of_int (buttonPushed val) \<rparr>)
                else s\<lparr> last_dir := word_of_int (buttonPushed val) \<rparr>) = Inr a"
        and "Inr (True, a) = (Inr (det', s') :: fault + bool \<times> state)"
      unfolding loop_directory_new_position [OF new] by blast
    then show ?thesis
      by (auto dest: index_readFilenames)
  next
    case same
    show ?thesis
    proof (cases "playing (MP3player s)")
      case True
      with same assms show ?thesis
        by (simp add: loop_directory_def Let_def)
    next
      case False
      with same assms(1) have "and_then (playNextTrack e s) (\<lambda>s1. Inr (det, s1)) = Inr (det', s')"
        by (simp add: loop_directory_def Let_def)
      from and_then_Inr [OF this] obtain a where "playNextTrack e s = Inr a" and "s' = a"
        by auto
      with assms(2) show ?thesis
        by (auto dest: index_playNextTrack)
    qed
  next
    case none
    with assms(1) show ?thesis
      by (auto simp: loop_directory_def Let_def split: if_splits)
  qed
qed

lemma index_loop_previous:
  assumes "loop_previous e lv s = Inr s'" and "uint (last_file s) \<le> 20"
  shows "uint (last_file s') \<le> 20"
proof (cases "\<not> DEBUG \<and> last_dir s > 0 \<and> lv = LOW \<and> \<not> previousTrackSwitchOn s")
  case True
  let ?r = "if position (MP3player s) \<ge> 3000
           then (let s1 = stopPlayback s in playMp3File e (last_file s1) s1)
           else playPreviousTrack e s"
  from True assms(1) have "and_then ?r (\<lambda>s1. Inr (s1\<lparr> previousTrackSwitchOn := True \<rparr>)) = Inr s'"
    by (simp add: loop_previous_def)
  from and_then_Inr [OF this] obtain a
    where a: "?r = Inr a" and s': "s' = a\<lparr> previousTrackSwitchOn := True \<rparr>"
    by auto
  have "uint (last_file a) \<le> 20"
  proof (cases "position (MP3player s) \<ge> 3000")
    case True
    with a have "playMp3File e (last_file (stopTrack s)) (stopTrack s) = Inr a"
      by (simp add: Let_def stopPlayback_def)
    moreover from assms(2) have "uint (last_file (stopTrack s)) \<le> 20"
      by (simp add: stopTrack_def)
    ultimately show ?thesis
      by (rule index_playMp3File)
  next
    case False
    with a have "playPreviousTrack e s = Inr a"
      by simp
    from index_playPreviousTrack [OF this assms(2)] show ?thesis .
  qed
  with s' show ?thesis
    by simp
next
  case False
  with assms(1) have "s' = s\<lparr> previousTrackSwitchOn := False \<rparr>"
    by (auto simp: loop_previous_def)
  with assms(2) show ?thesis
    by simp
qed

lemma index_loop_next:
  assumes "loop_next e lv s = Inr s'" and "uint (last_file s) \<le> 20"
  shows "uint (last_file s') \<le> 20"
proof (cases "last_dir s > 0 \<and> lv = LOW \<and> \<not> nextTrackSwitchOn s")
  case True
  with assms(1)
  have "and_then (playNextTrack e s) (\<lambda>s1. Inr (s1\<lparr> nextTrackSwitchOn := True \<rparr>)) = Inr s'"
    by (simp add: loop_next_def)
  from and_then_Inr [OF this] obtain a
    where a: "playNextTrack e s = Inr a" and s': "s' = a\<lparr> nextTrackSwitchOn := True \<rparr>"
    by auto
  from index_playNextTrack [OF a assms(2)] s' show ?thesis
    by simp
next
  case False
  with assms(1) have "s' = s\<lparr> nextTrackSwitchOn := False \<rparr>"
    by (auto simp: loop_next_def)
  with assms(2) show ?thesis
    by simp
qed

lemma index_loop:
  assumes "loop e i s = Inr s'" and "uint (last_file s) \<le> 20"
  shows "uint (last_file s') \<le> 20"
proof -
  let ?s0 = "if buttonLastChecked s = 0
             then s\<lparr> buttonLastChecked := millis_first i + BUTTONDELAY \<rparr> else s"
  let ?A = "if millis_check i - buttonLastChecked ?s0 > BUTTONDELAY then
              and_then (loop_directory e (directory_sample i) (False, ?s0))
                (\<lambda>ds. case loop_volume (volume_sample i) ds of
                         (det, s1) \<Rightarrow> Inr (det, s1\<lparr> buttonLastChecked := millis_checked i \<rparr>))
            else Inr (False, ?s0)"
  let ?B = "\<lambda>(det, s1).
              and_then (loop_previous e (previousTrackSwitchState i) s1)
                (\<lambda>s2. and_then (loop_next e (nextTrackSwitchState i) s2)
                   (\<lambda>s3. Inr (if nextTrackSwitchState i = LOW then True else det, s3)))"
  from and_then_Inr [OF assms(1) [unfolded loop_def]] obtain p
    where poll: "loop_poll e i s = Inr p"
      and "(case p of (det, s1) \<Rightarrow> Inr (adjustVolume (loop_sleep i det s1))) = (Inr s' :: fault + state)"
    by blast
  then obtain det s1 where p: "p = (det, s1)" and s': "s' = adjustVolume (loop_sleep i det s1)"
    by (cases p) auto
  from poll p have "and_then ?A ?B = Inr (det, s1)"
    unfolding loop_poll_def Let_def by simp
  then obtain q where A: "?A = Inr q" and B': "?B q = Inr (det, s1)"
    by (blast dest: and_then_Inr)
  obtain d2 sc where q [simp]: "q = (d2, sc)"
    by (cases q)
  have s0: "uint (last_file ?s0) \<le> 20"
    using assms(2) by simp
  have sc: "uint (last_file sc) \<le> 20"
  proof (cases "millis_check i - buttonLastChecked ?s0 > BUTTONDELAY")
    case True
    with A have "and_then (loop_directory e (directory_sample i) (False, ?s0))
                (\<lambda>ds. case loop_volume (volume_sample i) ds of
                         (det, s1) \<Rightarrow> Inr (det, s1\<lparr> buttonLastChecked := millis_checked i \<rparr>))
              = Inr (d2, sc)"
      by simp
    from and_then_Inr [OF this] obtain ds
      where ds: "loop_directory e (directory_sample i) (False, ?s0) = Inr ds"
        and v: "(case loop_volume (volume_sample i) ds of
                  (det, s1) \<Rightarrow> Inr (det, s1\<lparr> buttonLastChecked := millis_checked i \<rparr>))
                = (Inr (d2, sc) :: fault + bool \<times> state)"
      by blast
    obtain d1 sa where dsa: "ds = (d1, sa)"
      by (cases ds)
    from ds dsa have "loop_directory e (directory_sample i) (False, ?s0) = Inr (d1, sa)"
      by simp
    from index_loop_directory [OF this s0] have "uint (last_file sa) \<le> 20" .
    moreover from v dsa have "last_file sc = last_file sa"
      by (auto simp: loop_volume_def Let_def setTargetVolumeByRange_def split: if_splits)
    ultimately show ?thesis
      by simp
  next
    case False
    with A s0 show ?thesis
      by simp
  qed
  from B' have "and_then (loop_previous e (previousTrackSwitchState i) sc)
                (\<lambda>s2. and_then (loop_next e (nextTrackSwitchState i) s2)
                   (\<lambda>s3. Inr (if nextTrackSwitchState i = LOW then True else d2, s3)))
            = Inr (det, s1)"
    by simp
  from and_then_Inr [OF this] obtain sd
    where sd: "loop_previous e (previousTrackSwitchState i) sc = Inr sd"
    and C: "and_then (loop_next e (nextTrackSwitchState i) sd)
              (\<lambda>s3. Inr (if nextTrackSwitchState i = LOW then True else d2, s3)) = Inr (det, s1)"
    by blast
  from and_then_Inr [OF C] have se: "loop_next e (nextTrackSwitchState i) sd = Inr s1"
    by auto
  from index_loop_next [OF se index_loop_previous [OF sd sc]] show ?thesis
    unfolding s' by (simp add: adjustVolume_def loop_sleep_def sleepNow_def Let_def)
qed

lemma index_run:
  assumes "run e ps s = Inr s'" and "uint (last_file s) \<le> 20"
  shows "uint (last_file s') \<le> 20"
  using assms
proof (induction ps arbitrary: s)
  case Nil
  then show ?case by simp
next
  case (Cons p ps)
  from Cons.prems(1) obtain t where t: "loop e (reads p) (outside p s) = Inr t"
    and rest: "run e ps t = Inr s'"
    by (auto dest: and_then_Inr)
  from Cons.prems(2) have "uint (last_file (outside p s)) \<le> 20"
    by (simp add: outside_def)
  from Cons.IH [OF rest index_loop [OF t this]] show ?case .
qed

end
